theory Spec2Isabelle
  imports Main "HOL-Library.AList"
begin

section \<open>The data processor of app.py\<close>

text \<open>
  This theory embeds the data-handling methods of the class \<open>DataProcessorApp\<close> of
  \<^verbatim>\<open>src/app.py\<close>: \<open>detect_data_category\<close>, \<open>assign_unique_identifiers\<close>,
  \<open>prevent_duplicate_entries\<close> and \<open>process_data\<close>. The widgets of the user
  interface (labels, the progress bar, dialogs) carry no data of the store and are left out.

  Every method is embedded as it is written. Lines 208 to 216 of the source (the set
  \<open>seen\<close>, the loop over \<open>processed_data\<close> and \<open>return unique_data\<close>) are indented at the
  level of the class, not of the method before them: they are no part of
  \<open>prevent_duplicate_entries\<close>, whose body ends with its dictionary.
\<close>

subsection \<open>Python values, exceptions and dictionaries\<close>

text \<open>
  A cell of a table read by pandas, and a value stored in a row afterwards: a string, an
  integer, \<open>None\<close>, or the floating-point \<open>NaN\<close> that pandas puts in a missing cell. Each
  \<open>NaN\<close> cell is an object of its own and compares unequal to every cell, itself a copy
  included; strings, integers and \<open>None\<close> compare by value. (Floating-point numbers other
  than \<open>NaN\<close> are not represented.)
\<close>

datatype val = Str string | Num int | NaN | Null

text \<open>The exceptions the modelled code can raise. \<open>KeyError\<close> carries the missing key.\<close>

datatype exn =
    ValueError
  | TypeError
  | OverflowError
  | KeyError string
  | IndexError
  | AttributeError
  | NameError
  | PersistenceError

text \<open>
  A row is a Python \<open>dict\<close> from column names to cells. Python dictionaries keep insertion
  order, so a row is an association list; \<open>entry[k] = v\<close> is \<open>AList.update k v entry\<close>,
  which replaces the value in place or appends the new key at the end, as Python does.
\<close>

type_synonym entry = "(string \<times> val) list"

text \<open>
  The identifier table: a \<open>dict\<close> from identity values to identifier strings, in insertion
  order. \<open>k in d\<close> and \<open>d[k]\<close> for a key that is not the very object stored: a \<open>NaN\<close> is
  never found, any other key is found by value.
\<close>

type_synonym table = "(val \<times> string) list"

definition lookup :: "table \<Rightarrow> val \<Rightarrow> string option" where
  "lookup d k = (if k = NaN then None else map_of d k)"

text \<open>\<open>d[k]\<close> on a row: \<open>KeyError(k)\<close> when the key is missing.\<close>

definition getitem :: "entry \<Rightarrow> string \<Rightarrow> exn + val" where
  "getitem d k = (case map_of d k of None \<Rightarrow> Inl (KeyError k) | Some v \<Rightarrow> Inr v)"

subsection \<open>detect_data_category (lines 95 to 109)\<close>

text \<open>The dictionary \<open>categories\<close> of the method, in its insertion order.\<close>

definition categories :: "(string \<times> string list) list" where
  "categories =
     [(''Messenger'', [''Time'', ''Sender'', ''Text'']),
      (''SMS'', [''SMS Type'', ''Time'', ''From/To'', ''Text'', ''Location'']),
      (''Calls'', [''Call Type'', ''Time'', ''From/To'', ''Duration'', ''Location'']),
      (''Keylog'', [''Application'', ''Time'', ''Text'']),
      (''Contacts'', [''Name'', ''Phone Number'', ''Email Id'', ''Last Contacted'']),
      (''Installed Apps'', [''Application Name'', ''Package Name'', ''Installed Date''])]"

text \<open>
  The loop \<open>for category, required_columns in categories.items()\<close>, returning at the
  first category all of whose required columns are among \<open>columns\<close>.
\<close>

fun detect_loop :: "(string \<times> string list) list \<Rightarrow> string list \<Rightarrow> string option" where
  "detect_loop [] columns = None"
| "detect_loop ((category, required_columns) # rest) columns =
     (if list_all (\<lambda>col. col \<in> set columns) required_columns then Some category
      else detect_loop rest columns)"

definition detect_data_category :: "string list \<Rightarrow> string option" where
  "detect_data_category columns = detect_loop categories columns"

subsection \<open>Identifier numbers: \<open>int(id.split("_")[1])\<close> and \<open>f"ID_{next_id:03d}"\<close>\<close>

text \<open>\<open>s.split(sep)\<close> for a separator of one character: never an empty list.\<close>

fun split_on :: "char \<Rightarrow> string \<Rightarrow> string list" where
  "split_on sep [] = [[]]"
| "split_on sep (c # cs) =
     (if c = sep then [] # split_on sep cs
      else (case split_on sep cs of [] \<Rightarrow> [[c]] | p # ps \<Rightarrow> (c # p) # ps))"

text \<open>The ten decimal digits: the character of a digit below ten, and the digit of a character.\<close>

definition digit_chars :: string where
  "digit_chars = ''0123456789''"

definition digit_chr :: "nat \<Rightarrow> char" where
  "digit_chr d = digit_chars ! d"

definition digit_val :: "char \<Rightarrow> nat option" where
  "digit_val c = map_of (zip digit_chars [0..<10]) c"

text \<open>
  The characters \<open>int()\<close> strips from both ends of an ASCII string: tab, line feed, vertical
  tab, form feed, carriage return and the space.
\<close>

definition py_isspace :: "char \<Rightarrow> bool" where
  "py_isspace c = (of_char c \<in> set [9, 10, 11, 12, 13, 32 :: nat])"

definition py_strip :: "string \<Rightarrow> string" where
  "py_strip s = rev (dropWhile py_isspace (rev (dropWhile py_isspace s)))"

text \<open>The value of a string of decimal digits, read from the left; \<open>None\<close> on any other character.\<close>

fun digits_value :: "string \<Rightarrow> nat \<Rightarrow> nat option" where
  "digits_value [] acc = Some acc"
| "digits_value (c # cs) acc =
     (case digit_val c of None \<Rightarrow> None | Some d \<Rightarrow> digits_value cs (10 * acc + d))"

text \<open>
  \<open>int(s)\<close> on a string without underscores: white space stripped, an optional sign, then
  at least one decimal digit; anything else is a \<open>ValueError\<close>. (Digits and spaces beyond
  ASCII, and the interpreter's limit on the length of a numeral, are not modelled.)
\<close>

definition unsigned_int :: "string \<Rightarrow> exn + int" where
  "unsigned_int ds =
     (if ds = [] then Inl ValueError
      else (case digits_value ds 0 of None \<Rightarrow> Inl ValueError | Some n \<Rightarrow> Inr (int n)))"

definition py_int :: "string \<Rightarrow> exn + int" where
  "py_int s =
     (case py_strip s of
        [] \<Rightarrow> Inl ValueError
      | c # cs \<Rightarrow>
          if c = CHR ''-'' then
            (case unsigned_int cs of Inl e \<Rightarrow> Inl e | Inr n \<Rightarrow> Inr (- n))
          else if c = CHR ''+'' then unsigned_int cs
          else unsigned_int (c # cs))"

text \<open>\<open>int(id.split("_")[1])\<close>: \<open>IndexError\<close> when the identifier has no underscore.\<close>

definition id_number :: "string \<Rightarrow> exn + int" where
  "id_number ident =
     (case split_on (CHR ''_'') ident of
        p0 # p1 # ps \<Rightarrow> py_int p1
      | _ \<Rightarrow> Inl IndexError)"

text \<open>The decimal numeral of a natural number, without leading zeros.\<close>

fun decimal :: "nat \<Rightarrow> string" where
  "decimal n = (if n < 10 then [digit_chr n] else decimal (n div 10) @ [digit_chr (n mod 10)])"

declare decimal.simps [simp del]

text \<open>
  \<open>format(n, "03d")\<close>: the numeral padded with zeros to a width of three, the sign
  counting in the width; a numeral that is wider is left as it is.
\<close>

definition zfill :: "nat \<Rightarrow> string \<Rightarrow> string" where
  "zfill w ds = replicate (w - length ds) (CHR ''0'') @ ds"

definition format_03d :: "int \<Rightarrow> string" where
  "format_03d n =
     (if n < 0 then CHR ''-'' # zfill 2 (decimal (nat (- n))) else zfill 3 (decimal (nat n)))"

definition mint :: "int \<Rightarrow> string" where
  "mint next_id = ''ID_'' @ format_03d next_id"

subsection \<open>assign_unique_identifiers (lines 169 to 192)\<close>

text \<open>\<open>max\<close> over the numbers of a generator; it is only called on a table that is not empty.\<close>

fun py_max :: "int list \<Rightarrow> exn + int" where
  "py_max [] = Inl ValueError"
| "py_max (n # ns) = Inr (fold max ns n)"

text \<open>
  The generator \<open>int(id.split("_")[1]) for id in existing_identifiers.values()\<close>: the
  first identifier that fails to parse raises.
\<close>

fun id_numbers :: "string list \<Rightarrow> exn + int list" where
  "id_numbers [] = Inr []"
| "id_numbers (ident # rest) =
     (case id_number ident of
        Inl e \<Rightarrow> Inl e
      | Inr n \<Rightarrow> (case id_numbers rest of Inl e \<Rightarrow> Inl e | Inr ns \<Rightarrow> Inr (n # ns)))"

text \<open>Line 176: the number of the next identifier, computed once, before the loop.\<close>

definition initial_next_id :: "table \<Rightarrow> exn + int" where
  "initial_next_id existing_identifiers =
     (if existing_identifiers = [] then Inr 1
      else (case id_numbers (map snd existing_identifiers) of
              Inl e \<Rightarrow> Inl e
            | Inr ns \<Rightarrow> (case py_max ns of Inl e \<Rightarrow> Inl e | Inr m \<Rightarrow> Inr (m + 1))))"

text \<open>
  Lines 179 to 185: the identity value of an entry. \<open>None\<close> stands for \<open>continue\<close> (any
  category other than the four named ones); reading a missing column raises \<open>KeyError\<close>.
\<close>

definition sender_of :: "string \<Rightarrow> entry \<Rightarrow> (exn + val) option" where
  "sender_of category entry =
     (if category \<in> set [''Messenger'', ''SMS'', ''Calls''] then
        Some (getitem entry (if category = ''Messenger'' then ''Sender'' else ''From/To''))
      else if category = ''Contacts'' then Some (getitem entry ''Name'')
      else None)"

text \<open>
  The body of the loop, lines 179 to 190, on the table and \<open>next_id\<close> as they stand: the
  entry with its identifier attached, the table, and \<open>next_id\<close> afterwards. The source
  updates the entry and the table in place; the model returns them. A sender that is not
  in the table is a new key, which line 188 puts at the end of the table; line 190 then
  reads the identifier just stored under that very key.
\<close>

definition assign_entry ::
  "string \<Rightarrow> entry \<Rightarrow> table \<Rightarrow> int \<Rightarrow> exn + (entry \<times> table \<times> int)" where
  "assign_entry category entry existing_identifiers next_id =
     (case sender_of category entry of
        None \<Rightarrow> Inr (entry, existing_identifiers, next_id)
      | Some (Inl e) \<Rightarrow> Inl e
      | Some (Inr sender) \<Rightarrow>
          (case lookup existing_identifiers sender of
             None \<Rightarrow>
               Inr (AList.update ''identifier'' (Str (mint next_id)) entry,
                    existing_identifiers @ [(sender, mint next_id)],
                    next_id + 1)
           | Some ident \<Rightarrow>
               Inr (AList.update ''identifier'' (Str ident) entry, existing_identifiers, next_id)))"

text \<open>
  The loop of line 178 over the entries in their order. When an entry raises, the call has
  no result and the exception is the outcome.
\<close>

fun assign_loop :: "string \<Rightarrow> entry list \<Rightarrow> table \<Rightarrow> int \<Rightarrow> exn + (entry list \<times> table)" where
  "assign_loop category [] existing_identifiers next_id = Inr ([], existing_identifiers)"
| "assign_loop category (entry # rest) existing_identifiers next_id =
     (case assign_entry category entry existing_identifiers next_id of
        Inl e \<Rightarrow> Inl e
      | Inr (entry', tbl, next_id') \<Rightarrow>
          (case assign_loop category rest tbl next_id' of
             Inl e \<Rightarrow> Inl e
           | Inr (done, tbl') \<Rightarrow> Inr (entry' # done, tbl')))"

definition assign_unique_identifiers ::
  "entry list \<Rightarrow> string \<Rightarrow> table option \<Rightarrow> exn + (entry list \<times> table)" where
  "assign_unique_identifiers processed_data category existing_identifiers =
     (let tbl = (case existing_identifiers of None \<Rightarrow> [] | Some t \<Rightarrow> t) in
      case initial_next_id tbl of
        Inl e \<Rightarrow> Inl e
      | Inr next_id \<Rightarrow> assign_loop category processed_data tbl next_id)"

subsection \<open>prevent_duplicate_entries (lines 194 to 206)\<close>

text \<open>The dictionary \<open>unique_fields\<close> of the method.\<close>

definition unique_fields :: "(string \<times> string list) list" where
  "unique_fields =
     [(''Messenger'', [''Time'', ''Sender'', ''Text'']),
      (''SMS'', [''Time'', ''From/To'', ''Text'']),
      (''Calls'', [''Time'', ''From/To'', ''Duration'']),
      (''Keylog'', [''Application'', ''Time'', ''Text'']),
      (''Contacts'', [''Name'', ''Phone Number'']),
      (''Installed Apps'', [''Application Name'', ''Package Name''])]"

text \<open>
  The method as written: its docstring, the assignment of the dictionary to the local name
  \<open>unique_fields\<close>, and nothing more, so that a call returns Python's \<open>None\<close>, here the
  value \<open>None\<close> of the option type, whatever the batch and the category. The statements of
  lines 208 to 216 stand outside the method, at the level of the class.
\<close>

definition prevent_duplicate_entries :: "entry list \<Rightarrow> string \<Rightarrow> entry list option" where
  "prevent_duplicate_entries processed_data category =
     (let local_unique_fields = unique_fields in None)"

subsection \<open>process_data (lines 111 to 167)\<close>

text \<open>
  Lines 130 to 137, "standardize time formats". \<open>parse\<close> is \<open>dateutil.parser.parse\<close>, a
  library function: what it makes of a string (the time stamp formatted by
  \<open>strftime('%Y-%m-%dT%H:%M:%S')\<close>, or the exception raised) is the parameter \<open>parser\<close>;
  given anything that is no string or stream it raises \<open>TypeError\<close>.
\<close>

definition time_fields :: "string list" where
  "time_fields = [''Time'', ''Last Contacted'', ''Installed Date'']"

definition parse_strftime :: "(string \<Rightarrow> exn + string) \<Rightarrow> val \<Rightarrow> exn + string" where
  "parse_strftime parser v = (case v of Str s \<Rightarrow> parser s | _ \<Rightarrow> Inl TypeError)"

text \<open>The body of the inner loop: \<open>except ValueError\<close> handles that exception and no other.\<close>

definition standardize_field ::
  "(string \<Rightarrow> exn + string) \<Rightarrow> entry \<Rightarrow> string \<Rightarrow> exn + entry" where
  "standardize_field parser row field =
     (case map_of row field of
        None \<Rightarrow> Inr row
      | Some v \<Rightarrow>
          (case parse_strftime parser v of
             Inr t \<Rightarrow> Inr (AList.update field (Str t) row)
           | Inl e \<Rightarrow> if e = ValueError then Inr (AList.update field Null row) else Inl e))"

fun standardize_fields ::
  "(string \<Rightarrow> exn + string) \<Rightarrow> entry \<Rightarrow> string list \<Rightarrow> exn + entry" where
  "standardize_fields parser row [] = Inr row"
| "standardize_fields parser row (field # fields) =
     (case standardize_field parser row field of
        Inl e \<Rightarrow> Inl e
      | Inr row' \<Rightarrow> standardize_fields parser row' fields)"

fun standardize_time_formats ::
  "(string \<Rightarrow> exn + string) \<Rightarrow> entry list \<Rightarrow> exn + entry list" where
  "standardize_time_formats parser [] = Inr []"
| "standardize_time_formats parser (row # rows) =
     (case standardize_fields parser row time_fields of
        Inl e \<Rightarrow> Inl e
      | Inr row' \<Rightarrow>
          (case standardize_time_formats parser rows of
             Inl e \<Rightarrow> Inl e
           | Inr rows' \<Rightarrow> Inr (row' # rows')))"

text \<open>
  The JSON document \<open>existing_data\<close>: a dictionary whose values are the lists of entries
  of the categories and, under \<open>'identifiers'\<close>, the identifier table. The keys of a table
  read from JSON are strings.
\<close>

type_synonym json_table = "(string \<times> string) list"

datatype stored = Records "entry list" | Identifiers json_table

type_synonym store = "(string \<times> stored) list"

text \<open>Lines 145 to 147, the body of the merge loop; \<open>extend\<close> exists on lists only.\<close>

definition extend_category :: "store \<Rightarrow> string \<Rightarrow> entry list \<Rightarrow> exn + store" where
  "extend_category existing_data category entries =
     (let existing_data' =
            (if map_of existing_data category = None
             then AList.update category (Records []) existing_data
             else existing_data)
      in case map_of existing_data' category of
           None \<Rightarrow> Inl (KeyError category)
         | Some (Records rs) \<Rightarrow>
             Inr (AList.update category (Records (rs @ entries)) existing_data')
         | Some (Identifiers t) \<Rightarrow> Inl AttributeError)"

text \<open>Line 144: \<open>for category, entries in final_data.items()\<close>.\<close>

fun merge_loop :: "(string \<times> entry list) list \<Rightarrow> store \<Rightarrow> exn + store" where
  "merge_loop [] existing_data = Inr existing_data"
| "merge_loop ((category, entries) # rest) existing_data =
     (case extend_category existing_data category entries of
        Inl e \<Rightarrow> Inl e
      | Inr existing_data' \<Rightarrow> merge_loop rest existing_data')"

text \<open>Line 153: \<open>existing_data.get('identifiers', {}).items()\<close>.\<close>

definition stored_identifiers :: "store \<Rightarrow> exn + json_table" where
  "stored_identifiers existing_data =
     (case map_of existing_data ''identifiers'' of
        None \<Rightarrow> Inr []
      | Some (Identifiers t) \<Rightarrow> Inr t
      | Some (Records rs) \<Rightarrow> Inl AttributeError)"

text \<open>\<open>d.update(other)\<close> on dictionaries.\<close>

definition dict_update :: "json_table \<Rightarrow> json_table \<Rightarrow> json_table" where
  "dict_update d other = fold (\<lambda>(k, v) acc. AList.update k v acc) other d"

text \<open>
  The file at \<open>JSON_DB_PATH\<close>: the document it holds, if any, and whether reading and
  writing it succeed.
\<close>

record disk =
  document :: "store option"
  readable :: bool
  writable :: bool

text \<open>
  Modelled from the spec: \<open>load_json_data\<close> of the module \<open>utils\<close>, which is not among
  the sources. Section 4.5: \<open>load\<close> returns an empty store, not a failure, when no prior
  store exists; section 7: a load that fails is a \<open>PersistenceError\<close>.
\<close>

definition load_json_data :: "disk \<Rightarrow> exn + store" where
  "load_json_data d =
     (if \<not> readable d then Inl PersistenceError
      else Inr (case document d of None \<Rightarrow> [] | Some existing_data \<Rightarrow> existing_data))"

text \<open>
  Modelled from the spec: \<open>save_json_data\<close> of the module \<open>utils\<close>, which is not among
  the sources. Section 4.5: \<open>save\<close> persists the full store durably and atomically, all
  or nothing; section 7: a save that fails is a \<open>PersistenceError\<close> and leaves the store in
  its last good state.
\<close>

definition save_json_data :: "store \<Rightarrow> disk \<Rightarrow> exn + disk" where
  "save_json_data existing_data d =
     (if \<not> writable d then Inl PersistenceError
      else Inr (d\<lparr>document := Some existing_data\<rparr>))"

text \<open>
  The two other functions of \<open>utils\<close> that \<open>process_data\<close> calls,
  \<open>detect_and_categorize\<close> and \<open>prevent_duplicates\<close>, are parameters, together with the
  date parser: functions of their argument that return a dictionary from category names
  to lists of entries, or raise.
\<close>

record helpers =
  parser :: "string \<Rightarrow> exn + string"
  detect_and_categorize :: "entry list \<Rightarrow> exn + (string \<times> entry list) list"
  prevent_duplicates :: "(string \<times> entry list) list \<Rightarrow> exn + (string \<times> entry list) list"

text \<open>
  The state \<open>process_data\<close> reads and writes: two attributes of the object, what
  \<open>pd.read_csv(self.file_path).to_dict(orient='records')\<close> yields for the uploaded file,
  the module's global \<open>unique_identifiers\<close> (\<open>None\<close> while the name is unbound), and the
  file of the store. The source file declares the name \<open>global\<close> at line 150 and never
  assigns it; where it is unbound, line 151 raises \<open>NameError\<close>, before the save.
\<close>

record app_state =
  file_path :: "string option"
  data_category :: "string option"
  csv_file :: "exn + entry list"
  unique_identifiers :: "json_table option"
  db :: disk

datatype outcome = NoFileUploaded | CategoryNotDetected | ProcessingError exn | Saved

text \<open>
  Lines 120 to 164, the body of \<open>try\<close>: the state it leaves and the exception raised, if
  any. Nothing but \<open>save_json_data\<close> writes the file; the merge works on the dictionary
  that \<open>load_json_data\<close> returned.
\<close>

definition try_body :: "helpers \<Rightarrow> app_state \<Rightarrow> app_state \<times> exn option" where
  "try_body h self =
     (case load_json_data (db self) of
        Inl e \<Rightarrow> (self, Some e)
      | Inr existing_data \<Rightarrow>
     (case csv_file self of
        Inl e \<Rightarrow> (self, Some e)
      | Inr csv_data \<Rightarrow>
     (case standardize_time_formats (parser h) csv_data of
        Inl e \<Rightarrow> (self, Some e)
      | Inr csv_data' \<Rightarrow>
     (case detect_and_categorize h csv_data' of
        Inl e \<Rightarrow> (self, Some e)
      | Inr categorized_data \<Rightarrow>
     (case prevent_duplicates h categorized_data of
        Inl e \<Rightarrow> (self, Some e)
      | Inr final_data \<Rightarrow>
     (case merge_loop final_data existing_data of
        Inl e \<Rightarrow> (self, Some e)
      | Inr merged \<Rightarrow>
     (case unique_identifiers self of
        None \<Rightarrow> (self, Some NameError)
      | Some known \<Rightarrow>
     (case stored_identifiers merged of
        Inl e \<Rightarrow> (self, Some e)
      | Inr ids \<Rightarrow>
     (case save_json_data merged (db self) of
        Inl e \<Rightarrow> (self\<lparr>unique_identifiers := Some (dict_update known ids)\<rparr>, Some e)
      | Inr d \<Rightarrow>
          (self\<lparr>unique_identifiers := Some (dict_update known ids), db := d\<rparr>, None))))))))))"

text \<open>
  \<open>process_data\<close>: the two guards (an attribute that is \<open>None\<close> or empty is false), then
  the \<open>try\<close>, whose handler reports any exception.
\<close>

definition process_data :: "helpers \<Rightarrow> app_state \<Rightarrow> app_state \<times> outcome" where
  "process_data h self =
     (if file_path self = None \<or> file_path self = Some [] then (self, NoFileUploaded)
      else if data_category self = None \<or> data_category self = Some []
      then (self, CategoryNotDetected)
      else (case try_body h self of
              (self', Some e) \<Rightarrow> (self', ProcessingError e)
            | (self', None) \<Rightarrow> (self', Saved)))"

subsection \<open>Notions used in the statements\<close>

text \<open>The entries the store holds under a category: none when the category is absent.\<close>

definition records_of :: "store \<Rightarrow> string \<Rightarrow> entry list" where
  "records_of existing_data category =
     (case map_of existing_data category of Some (Records rs) \<Rightarrow> rs | _ \<Rightarrow> [])"

text \<open>Two Messenger rows for the examples.\<close>

definition alice_hi :: entry where
  "alice_hi = [(''Time'', Str ''t1''), (''Sender'', Str ''Alice''), (''Text'', Str ''hi'')]"

definition bob_hey :: entry where
  "bob_hey = [(''Time'', Str ''t2''), (''Sender'', Str ''Bob''), (''Text'', Str ''hey'')]"


text \<open>Rows of the other categories that have an identity field.\<close>

definition sms_row :: entry where
  "sms_row =
     [(''SMS Type'', Str ''in''), (''Time'', Str ''t3''), (''From/To'', Num 5551234),
      (''Text'', Str ''yo''), (''Location'', Null)]"

definition call_row :: entry where
  "call_row =
     [(''Call Type'', Str ''out''), (''Time'', Str ''t4''), (''From/To'', Str ''Carol''),
      (''Duration'', Num 60), (''Location'', Null)]"

definition contact_row :: entry where
  "contact_row =
     [(''Name'', Str ''Dave''), (''Phone Number'', Num 5550000), (''Email Id'', NaN),
      (''Last Contacted'', Str ''t5'')]"

text \<open>
  An instance of the parameters of \<open>process_data\<close> for the examples. The date parser knows
  one time stamp and rejects every other string with \<open>ValueError\<close>; every table is taken for
  Messenger and passed on as it is.
\<close>

definition example_parser :: "string \<Rightarrow> exn + string" where
  "example_parser s = (if s = ''5 Jan 2024 10:00'' then Inr ''2024-01-05T10:00:00'' else Inl ValueError)"

definition example_helpers :: helpers where
  "example_helpers =
     \<lparr>parser = example_parser,
      detect_and_categorize = (\<lambda>csv_data. Inr [(''Messenger'', csv_data)]),
      prevent_duplicates = (\<lambda>categorized_data. Inr categorized_data)\<rparr>"

text \<open>
  A state in which a file has been uploaded and its category detected, the name
  \<open>unique_identifiers\<close> is bound to an empty dictionary, and no store has been saved yet.
\<close>

definition example_state :: "entry list \<Rightarrow> bool \<Rightarrow> app_state" where
  "example_state csv_data can_write =
     \<lparr>file_path = Some ''upload.csv'', data_category = Some ''Messenger'',
      csv_file = Inr csv_data, unique_identifiers = Some [],
      db = \<lparr>document = None, readable = True, writable = can_write\<rparr>\<rparr>"


text \<open>
  Tables for the examples: one whose time stamps are strings, and one with a missing cell
  and a number where time stamps are expected.
\<close>

definition timed_rows :: "entry list" where
  "timed_rows =
     [[(''Time'', Str ''5 Jan 2024 10:00''), (''Last Contacted'', Str ''soon'')],
      [(''Installed Date'', Str ''5 Jan 2024 10:00''), (''Time'', Str ''never''),
       (''Text'', Str ''b'')]]"

definition missing_time_rows :: "entry list" where
  "missing_time_rows =
     [[(''Name'', Str ''Dave''), (''Last Contacted'', NaN)],
      [(''Name'', Str ''Erin''), (''Installed Date'', Num 1700000000)]]"


section \<open>Properties\<close>

subsection \<open>Category detection\<close>

lemma detect_loop_find:
  "detect_loop cs columns =
     map_option fst (find (\<lambda>p. set (snd p) \<subseteq> set columns) cs)"
  by (induction cs columns rule: detect_loop.induct) (auto simp: list_all_iff)

lemma first_match_index:
  "map_option fst (find P cs) = Some c \<longleftrightarrow>
     (\<exists>i<length cs. fst (cs ! i) = c \<and> P (cs ! i) \<and> (\<forall>j<i. \<not> P (cs ! j)))"
proof
  assume "map_option fst (find P cs) = Some c"
  then obtain x where x: "find P cs = Some x" and c: "fst x = c" by auto
  from x obtain i where "i < length cs" "P (cs ! i)" "x = cs ! i" "\<forall>j<i. \<not> P (cs ! j)"
    unfolding find_Some_iff by blast
  with c show "\<exists>i<length cs. fst (cs ! i) = c \<and> P (cs ! i) \<and> (\<forall>j<i. \<not> P (cs ! j))"
    by blast
next
  assume "\<exists>i<length cs. fst (cs ! i) = c \<and> P (cs ! i) \<and> (\<forall>j<i. \<not> P (cs ! j))"
  then obtain i where i: "i < length cs" "fst (cs ! i) = c" "P (cs ! i)" "\<forall>j<i. \<not> P (cs ! j)"
    by blast
  then have "find P cs = Some (cs ! i)"
    unfolding find_Some_iff by blast
  with i show "map_option fst (find P cs) = Some c" by simp
qed

lemma find_None_nth: "find P xs = None \<longleftrightarrow> (\<forall>i<length xs. \<not> P (xs ! i))"
proof -
  have "(\<forall>x\<in>set xs. \<not> P x) \<longleftrightarrow> (\<forall>i<length xs. \<not> P (xs ! i))"
    by (rule all_set_conv_all_nth)
  then show ?thesis
    unfolding find_None_iff by blast
qed

lemma no_match_index:
  "map_option fst (find P cs) = None \<longleftrightarrow> (\<forall>i<length cs. \<not> P (cs ! i))"
  by (simp only: option.map_disc_iff find_None_nth)

lemma categories_names:
  "map fst categories =
     [''Messenger'', ''SMS'', ''Calls'', ''Keylog'', ''Contacts'', ''Installed Apps'']"
  by (simp add: categories_def)

text \<open>
  Claim C5. The categories are tried in the order Messenger, SMS, Calls, Keylog, Contacts,
  Installed Apps. \<open>detect_data_category\<close> returns the category at the first position of
  that order whose required columns are all among the column names given (other columns
  are ignored), and \<open>None\<close> exactly when no category's required columns are all present.
  The result depends on the set of column names only, so a repeated call returns the same.
\<close>

theorem detect_data_category_first_match:
  "map fst categories =
     [''Messenger'', ''SMS'', ''Calls'', ''Keylog'', ''Contacts'', ''Installed Apps''] \<and>
   (detect_data_category columns = Some c \<longleftrightarrow>
      (\<exists>i<length categories. fst (categories ! i) = c \<and>
          set (snd (categories ! i)) \<subseteq> set columns \<and>
          (\<forall>j<i. \<not> set (snd (categories ! j)) \<subseteq> set columns))) \<and>
   (detect_data_category columns = None \<longleftrightarrow>
      (\<forall>i<length categories. \<not> set (snd (categories ! i)) \<subseteq> set columns)) \<and>
   (set columns' = set columns \<longrightarrow>
      detect_data_category columns' = detect_data_category columns)"
proof (intro conjI)
  show "map fst categories =
     [''Messenger'', ''SMS'', ''Calls'', ''Keylog'', ''Contacts'', ''Installed Apps'']"
    by (rule categories_names)
next
  show "detect_data_category columns = Some c \<longleftrightarrow>
      (\<exists>i<length categories. fst (categories ! i) = c \<and>
          set (snd (categories ! i)) \<subseteq> set columns \<and>
          (\<forall>j<i. \<not> set (snd (categories ! j)) \<subseteq> set columns))"
    unfolding detect_data_category_def detect_loop_find
    by (rule first_match_index)
next
  show "detect_data_category columns = None \<longleftrightarrow>
      (\<forall>i<length categories. \<not> set (snd (categories ! i)) \<subseteq> set columns)"
    unfolding detect_data_category_def detect_loop_find
    by (rule no_match_index)
next
  show "set columns' = set columns \<longrightarrow>
      detect_data_category columns' = detect_data_category columns"
    unfolding detect_data_category_def detect_loop_find by simp
qed

text \<open>
  The columns Application, Time, Sender, Text hold the required columns of Messenger and
  of Keylog; Messenger comes first.
\<close>

theorem detect_data_category_first_match_witness:
  "detect_data_category [''Application'', ''Time'', ''Sender'', ''Text''] = Some ''Messenger'' \<and>
   (\<exists>i<length categories. fst (categories ! i) = ''Messenger'' \<and>
       set (snd (categories ! i)) \<subseteq> set [''Application'', ''Time'', ''Sender'', ''Text''] \<and>
       (\<forall>j<i. \<not> set (snd (categories ! j))
                  \<subseteq> set [''Application'', ''Time'', ''Sender'', ''Text''])) \<and>
   detect_data_category [''Text'', ''Sender'', ''Time'', ''Application'', ''Text''] =
     detect_data_category [''Application'', ''Time'', ''Sender'', ''Text'']"
proof -
  have e: "detect_data_category [''Application'', ''Time'', ''Sender'', ''Text''] =
      Some ''Messenger''"
    by (simp add: detect_data_category_def categories_def)
  have s: "set [''Text'', ''Sender'', ''Time'', ''Application'', ''Text''] =
      set [''Application'', ''Time'', ''Sender'', ''Text'']"
    by auto
  from detect_data_category_first_match
         [of "[''Application'', ''Time'', ''Sender'', ''Text'']" "''Messenger''"
             "[''Text'', ''Sender'', ''Time'', ''Application'', ''Text'']"] e s
  show ?thesis by blast
qed

subsection \<open>The duplicate filter\<close>

lemma prevent_duplicate_entries_None: "prevent_duplicate_entries processed_data category = None"
  by (simp add: prevent_duplicate_entries_def)

text \<open>
  Claim C2. The claim reads the loop of lines 210 to 214 as the body of the method: the first
  record of each key tuple kept, later ones dropped, in input order. As the method is
  written the loop is outside it. Called with a batch of two equal Messenger rows, it
  returns \<open>None\<close>: no list of survivors, and the first row is not kept. The docstring of
  the method says that it removes duplicate entries from the data.
\<close>

theorem prevent_duplicate_entries_keeps_nothing:
  "prevent_duplicate_entries [alice_hi, alice_hi] ''Messenger'' = None"
  by (rule prevent_duplicate_entries_None)

subsection \<open>The merge loop\<close>

lemma extend_category_lookup:
  assumes "extend_category s c es = Inr s'"
  shows "map_of s' c' =
           (if c' = c then Some (Records (records_of s c @ es)) else map_of s c')"
  using assms
  by (auto simp: extend_category_def records_of_def Let_def update_conv'
           split: if_splits option.splits stored.splits)

lemma extend_category_total:
  "(\<forall>t. map_of s c \<noteq> Some (Identifiers t)) \<Longrightarrow> \<exists>s'. extend_category s c es = Inr s'"
  by (auto simp: extend_category_def Let_def update_conv' split: option.splits stored.splits)

lemma records_of_extend:
  "extend_category s c es = Inr s' \<Longrightarrow>
     records_of s' c' = (if c' = c then records_of s c @ es else records_of s c')"
  by (simp add: records_of_def [of s'] extend_category_lookup) (simp add: records_of_def)

lemma in_fst_image: "(a, b) \<in> S \<Longrightarrow> a \<in> fst ` S"
  by force

lemma merge_loop_lookup:
  "merge_loop fd s = Inr s' \<Longrightarrow>
     map_of s' c =
       (if c \<in> fst ` set fd
        then Some (Records (records_of s c @ concat (map snd (filter (\<lambda>p. fst p = c) fd))))
        else map_of s c)"
proof (induction fd s arbitrary: s' rule: merge_loop.induct)
  case (1 s)
  then show ?case by simp
next
  case (2 c0 es0 rest s)
  from "2.prems" obtain s1 where
    e: "extend_category s c0 es0 = Inr s1" and m: "merge_loop rest s1 = Inr s'"
    by (auto split: sum.splits)
  from "2.IH" [OF e m] show ?case
    by (auto simp: records_of_extend [OF e] extend_category_lookup [OF e] dest: in_fst_image)
qed

lemma merge_loop_total:
  "\<forall>c\<in>fst ` set fd. \<forall>t. map_of s c \<noteq> Some (Identifiers t) \<Longrightarrow> \<exists>s'. merge_loop fd s = Inr s'"
proof (induction fd s rule: merge_loop.induct)
  case (1 s)
  then show ?case by simp
next
  case (2 c0 es0 rest s)
  from "2.prems" have "\<forall>t. map_of s c0 \<noteq> Some (Identifiers t)" by simp
  from extend_category_total [OF this] obtain s1 where e: "extend_category s c0 es0 = Inr s1"
    by blast
  have "\<forall>c\<in>fst ` set rest. \<forall>t. map_of s1 c \<noteq> Some (Identifiers t)"
    using "2.prems" by (auto simp: extend_category_lookup [OF e])
  from "2.IH" [OF e this] e show ?case by simp
qed

lemma concat_single_key:
  "distinct (map fst fd) \<Longrightarrow> (c, es) \<in> set fd \<Longrightarrow>
     concat (map snd (filter (\<lambda>p. fst p = c) fd)) = es"
proof (induction fd)
  case Nil
  then show ?case by simp
next
  case (Cons p fd)
  show ?case
  proof (cases "p = (c, es)")
    case True
    with Cons.prems have "filter (\<lambda>p. fst p = c) fd = []"
      by (auto simp: filter_empty_conv)
    with True show ?thesis by simp
  next
    case False
    with Cons show ?thesis by (cases p) (auto simp: rev_image_eqI)
  qed
qed


text \<open>
  Claim C8. When the merge loop of \<open>process_data\<close> succeeds, a category that does not
  occur in \<open>final_data\<close> has in the merged store what it had before; a category that occurs
  holds the entries it held before, unchanged and in place, followed by the entries merged
  for it, in their order. \<open>final_data\<close> is a dictionary, so each category occurs once, and
  its entries are appended as they are.
\<close>

theorem merge_loop_appends:
  assumes "merge_loop final_data existing_data = Inr merged"
  shows "(\<forall>c. c \<notin> fst ` set final_data \<longrightarrow> map_of merged c = map_of existing_data c) \<and>
         (\<forall>c\<in>fst ` set final_data.
            map_of merged c =
              Some (Records (records_of existing_data c @
                             concat (map snd (filter (\<lambda>p. fst p = c) final_data))))) \<and>
         (distinct (map fst final_data) \<longrightarrow>
            (\<forall>(c, entries)\<in>set final_data.
               map_of merged c = Some (Records (records_of existing_data c @ entries))))"
proof (intro conjI allI impI ballI)
  fix c assume "c \<notin> fst ` set final_data"
  then show "map_of merged c = map_of existing_data c"
    by (simp add: merge_loop_lookup [OF assms])
next
  fix c assume "c \<in> fst ` set final_data"
  then show "map_of merged c =
      Some (Records (records_of existing_data c @
                     concat (map snd (filter (\<lambda>p. fst p = c) final_data))))"
    by (simp add: merge_loop_lookup [OF assms])
next
  fix p assume d: "distinct (map fst final_data)" and p: "p \<in> set final_data"
  obtain c es where ces: "p = (c, es)" by (cases p)
  with p have "c \<in> fst ` set final_data" by (auto simp: rev_image_eqI)
  with concat_single_key [OF d, of c es] p ces
  show "case p of (c, entries) \<Rightarrow>
          map_of merged c = Some (Records (records_of existing_data c @ entries))"
    by (simp add: merge_loop_lookup [OF assms])
qed

theorem merge_loop_appends_witness:
  "merge_loop [(''Messenger'', [bob_hey]), (''Keylog'', [])]
     [(''Messenger'', Records [alice_hi]), (''identifiers'', Identifiers [(''Alice'', ''ID_001'')])] =
     Inr [(''Messenger'', Records [alice_hi, bob_hey]),
          (''identifiers'', Identifiers [(''Alice'', ''ID_001'')]),
          (''Keylog'', Records [])] \<and>
   map_of [(''Messenger'', Records [alice_hi, bob_hey]),
          (''identifiers'', Identifiers [(''Alice'', ''ID_001'')]),
          (''Keylog'', Records [])] ''Messenger'' =
     Some (Records (records_of [(''Messenger'', Records [alice_hi]),
        (''identifiers'', Identifiers [(''Alice'', ''ID_001'')])] ''Messenger'' @ [bob_hey])) \<and>
   map_of [(''Messenger'', Records [alice_hi, bob_hey]),
          (''identifiers'', Identifiers [(''Alice'', ''ID_001'')]),
          (''Keylog'', Records [])] ''identifiers'' =
     map_of [(''Messenger'', Records [alice_hi]),
        (''identifiers'', Identifiers [(''Alice'', ''ID_001'')])] ''identifiers''"
proof -
  have m: "merge_loop [(''Messenger'', [bob_hey]), (''Keylog'', [])]
     [(''Messenger'', Records [alice_hi]), (''identifiers'', Identifiers [(''Alice'', ''ID_001'')])] =
     Inr [(''Messenger'', Records [alice_hi, bob_hey]),
          (''identifiers'', Identifiers [(''Alice'', ''ID_001'')]),
          (''Keylog'', Records [])]"
    by (simp add: extend_category_def)
  have d: "distinct (map fst [(''Messenger'', [bob_hey]), (''Keylog'', [])])"
    by simp
  from merge_loop_appends [OF m] d m show ?thesis
    by (simp add: records_of_def)
qed

subsection \<open>Identifier numbers\<close>

lemma upt_ten: "[0..<10] = [0, 1, 2, 3, 4, 5, 6, 7, 8, 9]"
  by (simp add: upt_rec)

lemma below_ten: "d < 10 \<Longrightarrow> d \<in> {0, 1, 2, 3, 4, 5, 6, 7, 8, 9 :: nat}"
  by auto

lemma digit_val_chr: "d < 10 \<Longrightarrow> digit_val (digit_chr d) = Some d"
  by (drule below_ten) (auto simp: digit_val_def digit_chr_def digit_chars_def upt_ten)

lemma digit_chr_in: "d < 10 \<Longrightarrow> digit_chr d \<in> set digit_chars"
  by (drule below_ten) (auto simp: digit_chr_def digit_chars_def)

lemma digit_plain:
  "c \<in> set digit_chars \<Longrightarrow>
     \<not> py_isspace c \<and> c \<noteq> CHR ''_'' \<and> c \<noteq> CHR ''-'' \<and> c \<noteq> CHR ''+''"
  by (auto simp: digit_chars_def py_isspace_def)

lemma zero_digit: "CHR ''0'' \<in> set digit_chars" "digit_val (CHR ''0'') = Some 0"
  by (simp_all add: digit_chars_def digit_val_def upt_ten)

lemma digits_value_snoc:
  "digits_value (xs @ [c]) acc =
     (case digits_value xs acc of
        None \<Rightarrow> None
      | Some a \<Rightarrow> map_option (\<lambda>d. 10 * a + d) (digit_val c))"
  by (induction xs arbitrary: acc) (auto split: option.splits)

lemma decimal_digits: "set (decimal n) \<subseteq> set digit_chars"
proof (induction n rule: decimal.induct)
  case (1 n)
  show ?case
  proof (cases "n < 10")
    case True
    then show ?thesis by (simp add: decimal.simps [of n] digit_chr_in)
  next
    case False
    with 1 show ?thesis by (simp add: decimal.simps [of n] digit_chr_in)
  qed
qed

lemma decimal_not_Nil: "decimal n \<noteq> []"
  by (simp add: decimal.simps [of n])

lemma digits_value_decimal: "digits_value (decimal n) 0 = Some n"
proof (induction n rule: decimal.induct)
  case (1 n)
  show ?case
  proof (cases "n < 10")
    case True
    then show ?thesis by (simp add: decimal.simps [of n] digit_val_chr)
  next
    case False
    with 1 show ?thesis
      by (simp add: decimal.simps [of n] digits_value_snoc digit_val_chr)
  qed
qed

lemma digits_value_zeros: "digits_value (replicate k (CHR ''0'') @ ds) 0 = digits_value ds 0"
  by (induction k) (simp_all add: zero_digit)

lemma zfill_digits: "set ds \<subseteq> set digit_chars \<Longrightarrow> set (zfill w ds) \<subseteq> set digit_chars"
  using zero_digit(1) by (auto simp: zfill_def)

lemma zfill_not_Nil: "ds \<noteq> [] \<Longrightarrow> zfill w ds \<noteq> []"
  by (simp add: zfill_def)

lemma unsigned_int_zfill_decimal: "unsigned_int (zfill w (decimal n)) = Inr (int n)"
  by (simp add: unsigned_int_def zfill_def decimal_not_Nil digits_value_zeros digits_value_decimal)

lemma py_strip_plain:
  "s \<noteq> [] \<Longrightarrow> \<not> py_isspace (hd s) \<Longrightarrow> \<not> py_isspace (last s) \<Longrightarrow> py_strip s = s"
proof -
  assume s: "s \<noteq> []" and h: "\<not> py_isspace (hd s)" and l: "\<not> py_isspace (last s)"
  from s h have 1: "dropWhile py_isspace s = s"
    by (cases s) simp_all
  from s l have 2: "dropWhile py_isspace (rev s) = rev s"
    by (cases s rule: rev_cases) simp_all
  show ?thesis by (simp add: py_strip_def 1 2)
qed

lemma py_int_digits:
  assumes "ds \<noteq> []" and "set ds \<subseteq> set digit_chars"
  shows "py_int ds = unsigned_int ds" and "py_int (CHR ''-'' # ds) = map_sum id uminus (unsigned_int ds)"
proof -
  from assms have h: "hd ds \<in> set digit_chars" and l: "last ds \<in> set digit_chars"
    by auto
  from assms(1) digit_plain [OF h] digit_plain [OF l] have "py_strip ds = ds"
    by (intro py_strip_plain) simp_all
  with assms(1) h show "py_int ds = unsigned_int ds"
    by (cases ds) (auto simp: py_int_def dest: digit_plain)
  from assms(1) digit_plain [OF l] have "py_strip (CHR ''-'' # ds) = CHR ''-'' # ds"
    by (intro py_strip_plain) (simp_all add: py_isspace_def)
  then show "py_int (CHR ''-'' # ds) = map_sum id uminus (unsigned_int ds)"
    by (simp add: py_int_def split: sum.splits)
qed

lemma py_int_format: "py_int (format_03d n) = Inr n"
proof (cases "n < 0")
  case True
  have "zfill 2 (decimal (nat (- n))) \<noteq> []" "set (zfill 2 (decimal (nat (- n)))) \<subseteq> set digit_chars"
    by (simp_all add: zfill_not_Nil decimal_not_Nil zfill_digits decimal_digits)
  from py_int_digits(2) [OF this] True show ?thesis
    by (simp add: format_03d_def unsigned_int_zfill_decimal)
next
  case False
  have "zfill 3 (decimal (nat n)) \<noteq> []" "set (zfill 3 (decimal (nat n))) \<subseteq> set digit_chars"
    by (simp_all add: zfill_not_Nil decimal_not_Nil zfill_digits decimal_digits)
  from py_int_digits(1) [OF this] False show ?thesis
    by (simp add: format_03d_def unsigned_int_zfill_decimal)
qed

lemma split_on_absent: "sep \<notin> set s \<Longrightarrow> split_on sep s = [s]"
  by (induction s) auto

lemma format_no_underscore: "CHR ''_'' \<notin> set (format_03d n)"
proof -
  have "\<And>w m. CHR ''_'' \<notin> set (zfill w (decimal m))"
    using zfill_digits [OF decimal_digits] digit_plain by blast
  then show ?thesis by (simp add: format_03d_def)
qed

lemma id_number_mint: "id_number (mint n) = Inr n"
  by (simp add: id_number_def mint_def split_on_absent [OF format_no_underscore] py_int_format)

lemma mint_examples:
  "mint 1 = ''ID_001''" "mint 42 = ''ID_042''" "mint 999 = ''ID_999''" "mint 1000 = ''ID_1000''"
  by (simp_all add: mint_def format_03d_def zfill_def decimal.simps digit_chr_def digit_chars_def
        numeral_2_eq_2)

subsection \<open>Identifier assignment\<close>

lemma py_max_Max:
  assumes "ns \<noteq> []"
  shows "py_max ns = Inr (Max (set ns))"
proof (cases ns)
  case Nil
  with assms show ?thesis by simp
next
  case (Cons a list)
  have "Max (set (a # list)) = fold max list a"
    by (rule Max.set_eq_fold)
  with Cons show ?thesis by simp
qed

lemma id_numbers_append:
  "id_numbers (xs @ ys) =
     (case id_numbers xs of
        Inl e \<Rightarrow> Inl e
      | Inr a \<Rightarrow> (case id_numbers ys of Inl e \<Rightarrow> Inl e | Inr b \<Rightarrow> Inr (a @ b)))"
  by (induction xs) (auto split: sum.splits)

lemma id_numbers_map: "id_numbers ids = Inr ns \<Longrightarrow> map id_number ids = map Inr ns"
  by (induction ids arbitrary: ns) (auto split: sum.splits)

lemma id_numbers_length: "id_numbers ids = Inr ns \<Longrightarrow> length ns = length ids"
  by (drule id_numbers_map) (metis length_map)

lemma id_numbers_mem:
  assumes "id_numbers ids = Inr ns" and "ident \<in> set ids"
  shows "\<exists>m\<in>set ns. id_number ident = Inr m"
proof -
  from assms(2) have "id_number ident \<in> set (map id_number ids)" by simp
  with id_numbers_map [OF assms(1)] show ?thesis by auto
qed

lemma id_numbers_total:
  "\<forall>ident\<in>set ids. \<exists>n. id_number ident = Inr n \<Longrightarrow> \<exists>ns. id_numbers ids = Inr ns"
  by (induction ids) auto


lemma initial_next_id_cases:
  "initial_next_id tbl = Inr n \<longleftrightarrow>
     (tbl = [] \<and> n = 1) \<or>
     (tbl \<noteq> [] \<and> (\<exists>ns. id_numbers (map snd tbl) = Inr ns \<and> n = Max (set ns) + 1))"
proof (cases "tbl = []")
  case True
  then show ?thesis by (auto simp: initial_next_id_def)
next
  case False
  show ?thesis
  proof (cases "id_numbers (map snd tbl)")
    case (Inl e)
    with False show ?thesis by (simp add: initial_next_id_def)
  next
    case (Inr ns)
    with False have "ns \<noteq> []" using id_numbers_length [OF Inr] by auto
    with False Inr show ?thesis
      by (auto simp: initial_next_id_def py_max_Max)
  qed
qed

lemma initial_next_id_total:
  assumes "\<forall>ident\<in>snd ` set tbl. \<exists>n. id_number ident = Inr n"
  shows "\<exists>n. initial_next_id tbl = Inr n"
proof (cases "tbl = []")
  case True
  then show ?thesis by (simp add: initial_next_id_def)
next
  case False
  from assms have "\<forall>ident\<in>set (map snd tbl). \<exists>n. id_number ident = Inr n" by simp
  from id_numbers_total [OF this] obtain ns where "id_numbers (map snd tbl) = Inr ns" by blast
  with False show ?thesis unfolding initial_next_id_cases by blast
qed


lemma initial_next_id_bound:
  assumes "initial_next_id tbl = Inr n" and "ident \<in> snd ` set tbl"
  shows "\<exists>m. id_number ident = Inr m \<and> m < n"
proof -
  from assms(2) have ne: "tbl \<noteq> []" by auto
  with assms(1) obtain ns where ns: "id_numbers (map snd tbl) = Inr ns" and n: "n = Max (set ns) + 1"
    unfolding initial_next_id_cases by auto
  from assms(2) have "ident \<in> set (map snd tbl)" by simp
  from id_numbers_mem [OF ns this] obtain m where m: "m \<in> set ns" "id_number ident = Inr m"
    by blast
  then have "m \<le> Max (set ns)" by simp
  with m n show ?thesis by auto
qed

lemma initial_next_id_snoc:
  assumes "initial_next_id tbl = Inr n"
  shows "initial_next_id (tbl @ [(s, mint n)]) = Inr (n + 1)"
proof (cases "tbl = []")
  case True
  with assms have "n = 1" by (simp add: initial_next_id_def)
  with True show ?thesis
    by (simp add: initial_next_id_def id_number_mint)
next
  case False
  with assms obtain ns where ns: "id_numbers (map snd tbl) = Inr ns" and n: "n = Max (set ns) + 1"
    unfolding initial_next_id_cases by auto
  from False have nne: "ns \<noteq> []" using id_numbers_length [OF ns] by auto
  have "id_numbers (map snd (tbl @ [(s, mint n)])) = Inr (ns @ [n])"
    by (simp add: id_numbers_append ns id_number_mint)
  moreover have "Max (set (ns @ [n])) = n"
    using nne n by (simp add: max_def)
  ultimately show ?thesis
    by (simp add: initial_next_id_def py_max_Max del: map_append)
qed

lemma lookup_Some: "lookup tbl s = Some ident \<longleftrightarrow> s \<noteq> NaN \<and> map_of tbl s = Some ident"
  by (simp add: lookup_def)

lemma lookup_None: "lookup tbl s = None \<longleftrightarrow> s = NaN \<or> map_of tbl s = None"
  by (simp add: lookup_def)

lemma assign_entry_cases:
  assumes "assign_entry c e tbl n = Inr (e', tbl1, n1)"
  shows "(sender_of c e = None \<and> e' = e \<and> tbl1 = tbl \<and> n1 = n) \<or>
         (\<exists>s ident. sender_of c e = Some (Inr s) \<and> s \<noteq> NaN \<and> map_of tbl s = Some ident \<and>
             e' = AList.update ''identifier'' (Str ident) e \<and> tbl1 = tbl \<and> n1 = n) \<or>
         (\<exists>s. sender_of c e = Some (Inr s) \<and> (s = NaN \<or> map_of tbl s = None) \<and>
             e' = AList.update ''identifier'' (Str (mint n)) e \<and>
             tbl1 = tbl @ [(s, mint n)] \<and> n1 = n + 1)"
proof (cases "sender_of c e")
  case None
  with assms show ?thesis by (simp add: assign_entry_def)
next
  case (Some r)
  show ?thesis
  proof (cases r)
    case (Inl err)
    with Some assms show ?thesis by (simp add: assign_entry_def)
  next
    case (Inr s)
    show ?thesis
    proof (cases "lookup tbl s")
      case None
      with Some Inr assms show ?thesis
        by (simp add: assign_entry_def lookup_None)
    next
      case found: (Some ident)
      with Some Inr assms show ?thesis
        by (simp add: assign_entry_def lookup_Some)
    qed
  qed
qed

lemma assign_loop_Cons:
  assumes "assign_loop c (e # es) tbl n = Inr (done, tbl')"
  obtains e' tbl1 n1 d where
    "assign_entry c e tbl n = Inr (e', tbl1, n1)" "assign_loop c es tbl1 n1 = Inr (d, tbl')"
    "done = e' # d"
  using assms by (auto split: sum.splits)

lemma assign_entry_next:
  assumes "initial_next_id tbl = Inr n" and "assign_entry c e tbl n = Inr (e', tbl1, n1)"
  shows "initial_next_id tbl1 = Inr n1 \<and> n1 = n + int (length tbl1) - int (length tbl)"
  using assign_entry_cases [OF assms(2)] assms(1) initial_next_id_snoc [OF assms(1)]
  by auto

lemma assign_entry_prefix:
  "assign_entry c e tbl n = Inr (e', tbl1, n1) \<Longrightarrow> \<exists>new. tbl1 = tbl @ new"
  by (drule assign_entry_cases) auto

lemma map_of_prefix: "map_of tbl k = Some v \<Longrightarrow> map_of (tbl @ new) k = Some v"
  by (simp add: map_add_Some_iff)

lemma assign_entry_attach:
  assumes "assign_entry c e tbl n = Inr (e', tbl1, n1)"
  shows "(sender_of c e = None \<longrightarrow> e' = e) \<and>
         (\<forall>s. sender_of c e = Some (Inr s) \<longrightarrow>
            (\<exists>ident. e' = AList.update ''identifier'' (Str ident) e \<and>
               (s, ident) \<in> set tbl1 \<and> (s \<noteq> NaN \<longrightarrow> map_of tbl1 s = Some ident)))"
  using assign_entry_cases [OF assms]
  by (elim disjE exE conjE) (auto simp: map_add_Some_iff dest: map_of_SomeD)

lemma assign_entry_distinct:
  assumes "initial_next_id tbl = Inr n" and "assign_entry c e tbl n = Inr (e', tbl1, n1)"
      and "distinct (map snd tbl)"
  shows "distinct (map snd tbl1)"
proof -
  have "mint n \<notin> snd ` set tbl"
  proof
    assume "mint n \<in> snd ` set tbl"
    from initial_next_id_bound [OF assms(1) this] show False
      by (simp add: id_number_mint)
  qed
  with assign_entry_cases [OF assms(2)] assms(3) show ?thesis by auto
qed

lemma assign_loop_prefix:
  "assign_loop c es tbl n = Inr (done, tbl') \<Longrightarrow> \<exists>new. tbl' = tbl @ new"
proof (induction es arbitrary: tbl n "done")
  case Nil
  then show ?case by simp
next
  case (Cons e es)
  from Cons.prems obtain e' tbl1 n1 d where
    s: "assign_entry c e tbl n = Inr (e', tbl1, n1)" and
    r: "assign_loop c es tbl1 n1 = Inr (d, tbl')"
    by (rule assign_loop_Cons)
  from assign_entry_prefix [OF s] Cons.IH [OF r] show ?case by auto
qed


lemma assign_loop_distinct:
  "initial_next_id tbl = Inr n \<Longrightarrow> assign_loop c es tbl n = Inr (done, tbl') \<Longrightarrow>
     distinct (map snd tbl) \<Longrightarrow> distinct (map snd tbl')"
proof (induction es arbitrary: tbl n "done")
  case Nil
  then show ?case by simp
next
  case (Cons e es)
  from Cons.prems(2) obtain e' tbl1 n1 d where
    s: "assign_entry c e tbl n = Inr (e', tbl1, n1)" and
    r: "assign_loop c es tbl1 n1 = Inr (d, tbl')"
    by (rule assign_loop_Cons)
  from assign_entry_next [OF Cons.prems(1) s] have i: "initial_next_id tbl1 = Inr n1"
    by simp
  from Cons.IH [OF i r assign_entry_distinct [OF Cons.prems(1) s Cons.prems(3)]]
  show ?case .
qed

lemma assign_loop_attach:
  "assign_loop c es tbl n = Inr (done, tbl') \<Longrightarrow>
     length done = length es \<and>
     (\<forall>i<length es.
        (sender_of c (es ! i) = None \<longrightarrow> done ! i = es ! i) \<and>
        (\<forall>s. sender_of c (es ! i) = Some (Inr s) \<longrightarrow>
           (\<exists>ident. done ! i = AList.update ''identifier'' (Str ident) (es ! i) \<and>
              (s, ident) \<in> set tbl' \<and> (s \<noteq> NaN \<longrightarrow> map_of tbl' s = Some ident))))"
proof (induction es arbitrary: tbl n "done")
  case Nil
  then show ?case by simp
next
  case (Cons e es)
  from Cons.prems obtain e' tbl1 n1 d where
    s: "assign_entry c e tbl n = Inr (e', tbl1, n1)" and
    r: "assign_loop c es tbl1 n1 = Inr (d, tbl')" and
    d: "done = e' # d"
    by (rule assign_loop_Cons)
  from assign_loop_prefix [OF r] obtain new where new: "tbl' = tbl1 @ new" by blast
  note ih = Cons.IH [OF r]
  show ?case
  proof (intro conjI allI impI)
    show "length done = length (e # es)" using ih d by simp
  next
    fix i assume "i < length (e # es)" "sender_of c ((e # es) ! i) = None"
    then show "done ! i = (e # es) ! i"
      using ih d assign_entry_attach [OF s] by (cases i) auto
  next
    fix i s assume i: "i < length (e # es)" and se: "sender_of c ((e # es) ! i) = Some (Inr s)"
    show "\<exists>ident. done ! i = AList.update ''identifier'' (Str ident) ((e # es) ! i) \<and>
            (s, ident) \<in> set tbl' \<and> (s \<noteq> NaN \<longrightarrow> map_of tbl' s = Some ident)"
    proof (cases i)
      case 0
      with se assign_entry_attach [OF s] obtain ident where
        "e' = AList.update ''identifier'' (Str ident) e" "(s, ident) \<in> set tbl1"
        "s \<noteq> NaN \<longrightarrow> map_of tbl1 s = Some ident"
        by auto
      with 0 d new show ?thesis by (auto simp: map_of_prefix)
    next
      case (Suc j)
      with i se ih d show ?thesis by auto
    qed
  qed
qed



lemma assign_entry_total:
  assumes "\<forall>err. sender_of c e \<noteq> Some (Inl err)"
  obtains e' tbl1 n1 where "assign_entry c e tbl n = Inr (e', tbl1, n1)"
proof -
  from assms have "\<exists>r. assign_entry c e tbl n = Inr r"
    by (simp add: assign_entry_def split: option.splits sum.splits)
  then obtain r where r: "assign_entry c e tbl n = Inr r" by blast
  obtain e' tbl1 n1 where "r = (e', tbl1, n1)" by (cases r)
  with r that show ?thesis by simp
qed

lemma assign_loop_total:
  "\<forall>e\<in>set es. \<forall>err. sender_of c e \<noteq> Some (Inl err) \<Longrightarrow> \<exists>r. assign_loop c es tbl n = Inr r"
proof (induction es arbitrary: tbl n)
  case Nil
  show ?case by simp
next
  case (Cons e es)
  from Cons.prems have "\<forall>err. sender_of c e \<noteq> Some (Inl err)" by simp
  then obtain e' tbl1 n1 where s: "assign_entry c e tbl n = Inr (e', tbl1, n1)"
    by (rule assign_entry_total)
  from Cons.prems have "\<forall>e\<in>set es. \<forall>err. sender_of c e \<noteq> Some (Inl err)" by simp
  from Cons.IH [OF this, of tbl1 n1] obtain r where "assign_loop c es tbl1 n1 = Inr r" by blast
  with s show ?case by (cases r) simp
qed

lemma assign_loop_raises:
  "\<forall>e\<in>set pre. \<forall>err. sender_of c e \<noteq> Some (Inl err) \<Longrightarrow> sender_of c entry = Some (Inl err) \<Longrightarrow>
     assign_loop c (pre @ entry # post) tbl n = Inl err"
proof (induction pre arbitrary: tbl n)
  case Nil
  then show ?case by (simp add: assign_entry_def)
next
  case (Cons x pre)
  from Cons.prems(1) have "\<forall>err. sender_of c x \<noteq> Some (Inl err)" by simp
  then obtain x' tbl1 n1 where s: "assign_entry c x tbl n = Inr (x', tbl1, n1)"
    by (rule assign_entry_total)
  from Cons.prems(1) have "\<forall>e\<in>set pre. \<forall>err. sender_of c e \<noteq> Some (Inl err)" by simp
  from Cons.IH [OF this Cons.prems(2), of tbl1 n1] s show ?case by simp
qed

lemma assign_loop_raises_mem:
  "x \<in> set es \<Longrightarrow> sender_of c x = Some (Inl err) \<Longrightarrow> \<exists>err'. assign_loop c es tbl n = Inl err'"
proof (induction es arbitrary: tbl n)
  case Nil
  then show ?case by simp
next
  case (Cons y ys)
  show ?case
  proof (cases "assign_entry c y tbl n")
    case (Inl err')
    then show ?thesis by simp
  next
    case (Inr r)
    obtain y' t1 n1 where r: "r = (y', t1, n1)" by (cases r)
    from Inr Cons.prems(2) have "y \<noteq> x"
      by (auto simp: assign_entry_def)
    with Cons.prems(1) have "x \<in> set ys" by simp
    from Cons.IH [OF this Cons.prems(2), of t1 n1] Inr r show ?thesis by auto
  qed
qed

lemma assign_unique_identifiers_Some:
  "assign_unique_identifiers es c (Some tbl) = Inr (assigned, tbl') \<longleftrightarrow>
     (\<exists>n. initial_next_id tbl = Inr n \<and> assign_loop c es tbl n = Inr (assigned, tbl'))"
  by (auto simp: assign_unique_identifiers_def split: sum.splits)

lemma distinct_values_inj:
  assumes "distinct (map snd tbl)" and "map_of tbl k1 = Some v" and "map_of tbl k2 = Some v"
  shows "k1 = k2"
proof -
  from assms(2,3) have "(k1, v) \<in> set tbl" "(k2, v) \<in> set tbl"
    by (simp_all add: map_of_SomeD)
  with assms(1) show ?thesis
    by (metis distinct_map inj_on_def snd_conv fst_conv)
qed



text \<open>What reading the identity column gives.\<close>

lemma getitem_cases:
  assumes "so = Some (getitem entry field)"
  shows "so = Some (Inr s) \<longleftrightarrow> map_of entry field = Some s"
    and "so = Some (Inl err) \<longleftrightarrow> map_of entry field = None \<and> err = KeyError field"
    and "so \<noteq> None"
  unfolding assms by (auto simp: getitem_def split: option.splits)

text \<open>Evaluations for the examples.\<close>

lemmas number_eval =
  id_number_def py_int_def py_strip_def py_isspace_def unsigned_int_def digit_val_def
  digit_chars_def upt_ten


lemma id_number_007: "id_number ''ID_007'' = Inr 7"
  by (simp add: number_eval)




lemma mint_8: "mint 8 = ''ID_008''"
  by (simp add: mint_def format_03d_def zfill_def decimal.simps digit_chr_def digit_chars_def
        numeral_2_eq_2)




text \<open>
  Claim C3. Let \<open>assign_unique_identifiers\<close> return for a batch and a table. The returned
  table is the given table followed by new entries, so no entry of the given table is
  changed or removed, and the batch keeps its length. For a Messenger batch the identity
  value is the cell \<open>Sender\<close>, for SMS and Calls the cell \<open>From/To\<close>, for Contacts the cell
  \<open>Name\<close>: every record of such a batch has that cell and comes back with the field
  \<open>identifier\<close> set to the identifier the returned table holds for the cell, which is the
  identifier of the given table when the cell is mapped there (a NaN cell is equal to no
  key). When no two entries of the given table hold the same identifier, no two entries
  of the returned table do, so two distinct identity values never have the same identifier.
  The call does return for such a batch when every record has the cell and every identifier
  of the table carries a number. Called without a table, the method works on an empty one.
\<close>

theorem assign_unique_identifiers_stable:
  "(assign_unique_identifiers processed_data category (Some existing_identifiers) =
      Inr (assigned, tbl) \<longrightarrow>
      (\<exists>new. tbl = existing_identifiers @ new) \<and>
      (\<forall>k v. map_of existing_identifiers k = Some v \<longrightarrow> map_of tbl k = Some v) \<and>
      length assigned = length processed_data \<and>
      ((category = ''Messenger'' \<and> field = ''Sender'') \<or>
       (category = ''SMS'' \<and> field = ''From/To'') \<or>
       (category = ''Calls'' \<and> field = ''From/To'') \<or>
       (category = ''Contacts'' \<and> field = ''Name'') \<longrightarrow>
         (\<forall>i<length processed_data. \<exists>s ident.
            map_of (processed_data ! i) field = Some s \<and>
            assigned ! i = AList.update ''identifier'' (Str ident) (processed_data ! i) \<and>
            (s, ident) \<in> set tbl \<and>
            (s \<noteq> NaN \<longrightarrow> map_of tbl s = Some ident) \<and>
            (\<forall>v. s \<noteq> NaN \<and> map_of existing_identifiers s = Some v \<longrightarrow> ident = v))) \<and>
      (distinct (map snd existing_identifiers) \<longrightarrow>
         distinct (map snd tbl) \<and>
         (\<forall>k1 k2 v. map_of tbl k1 = Some v \<and> map_of tbl k2 = Some v \<longrightarrow> k1 = k2))) \<and>
   (((category = ''Messenger'' \<and> field = ''Sender'') \<or>
     (category = ''SMS'' \<and> field = ''From/To'') \<or>
     (category = ''Calls'' \<and> field = ''From/To'') \<or>
     (category = ''Contacts'' \<and> field = ''Name'')) \<and>
    (\<forall>e\<in>set processed_data. map_of e field \<noteq> None) \<and>
    (\<forall>ident\<in>snd ` set existing_identifiers. \<exists>n. id_number ident = Inr n) \<longrightarrow>
      (\<exists>assigned' tbl'.
         assign_unique_identifiers processed_data category (Some existing_identifiers) =
           Inr (assigned', tbl'))) \<and>
   assign_unique_identifiers processed_data category None =
     assign_unique_identifiers processed_data category (Some [])"
proof (intro conjI)
  show "assign_unique_identifiers processed_data category (Some existing_identifiers) =
      Inr (assigned, tbl) \<longrightarrow>
      (\<exists>new. tbl = existing_identifiers @ new) \<and>
      (\<forall>k v. map_of existing_identifiers k = Some v \<longrightarrow> map_of tbl k = Some v) \<and>
      length assigned = length processed_data \<and>
      ((category = ''Messenger'' \<and> field = ''Sender'') \<or>
       (category = ''SMS'' \<and> field = ''From/To'') \<or>
       (category = ''Calls'' \<and> field = ''From/To'') \<or>
       (category = ''Contacts'' \<and> field = ''Name'') \<longrightarrow>
         (\<forall>i<length processed_data. \<exists>s ident.
            map_of (processed_data ! i) field = Some s \<and>
            assigned ! i = AList.update ''identifier'' (Str ident) (processed_data ! i) \<and>
            (s, ident) \<in> set tbl \<and>
            (s \<noteq> NaN \<longrightarrow> map_of tbl s = Some ident) \<and>
            (\<forall>v. s \<noteq> NaN \<and> map_of existing_identifiers s = Some v \<longrightarrow> ident = v))) \<and>
      (distinct (map snd existing_identifiers) \<longrightarrow>
         distinct (map snd tbl) \<and>
         (\<forall>k1 k2 v. map_of tbl k1 = Some v \<and> map_of tbl k2 = Some v \<longrightarrow> k1 = k2))"
  proof
    assume run: "assign_unique_identifiers processed_data category (Some existing_identifiers) =
        Inr (assigned, tbl)"
    then obtain n where
      n: "initial_next_id existing_identifiers = Inr n" and
      l: "assign_loop category processed_data existing_identifiers n = Inr (assigned, tbl)"
      unfolding assign_unique_identifiers_Some by blast
    from assign_loop_prefix [OF l] have a1: "\<exists>new. tbl = existing_identifiers @ new" .
    then obtain new where new: "tbl = existing_identifiers @ new" by blast
    then have keep: "\<forall>k v. map_of existing_identifiers k = Some v \<longrightarrow> map_of tbl k = Some v"
      by (simp add: map_of_prefix)
    note a = assign_loop_attach [OF l]
    from a have a3: "length assigned = length processed_data" by blast
    have a4: "(category = ''Messenger'' \<and> field = ''Sender'') \<or>
       (category = ''SMS'' \<and> field = ''From/To'') \<or>
       (category = ''Calls'' \<and> field = ''From/To'') \<or>
       (category = ''Contacts'' \<and> field = ''Name'') \<longrightarrow>
         (\<forall>i<length processed_data. \<exists>s ident.
            map_of (processed_data ! i) field = Some s \<and>
            assigned ! i = AList.update ''identifier'' (Str ident) (processed_data ! i) \<and>
            (s, ident) \<in> set tbl \<and>
            (s \<noteq> NaN \<longrightarrow> map_of tbl s = Some ident) \<and>
            (\<forall>v. s \<noteq> NaN \<and> map_of existing_identifiers s = Some v \<longrightarrow> ident = v))"
    proof (intro impI allI)
      fix i
      assume cat: "(category = ''Messenger'' \<and> field = ''Sender'') \<or>
         (category = ''SMS'' \<and> field = ''From/To'') \<or>
         (category = ''Calls'' \<and> field = ''From/To'') \<or>
         (category = ''Contacts'' \<and> field = ''Name'')"
        and i: "i < length processed_data"
      from i have mem: "processed_data ! i \<in> set processed_data" by simp
      have sf: "sender_of category e = Some (getitem e field)" for e
        using cat by (auto simp: sender_of_def)
      have "\<forall>err. sender_of category (processed_data ! i) \<noteq> Some (Inl err)"
      proof (intro allI notI)
        fix err assume e: "sender_of category (processed_data ! i) = Some (Inl err)"
        from assign_loop_raises_mem [OF mem e, of existing_identifiers n]
        have "\<exists>err'. assign_loop category processed_data existing_identifiers n = Inl err'" .
        with l show False by simp
      qed
      with getitem_cases [OF sf, of "processed_data ! i"]
      obtain s where s: "map_of (processed_data ! i) field = Some s"
        and so: "sender_of category (processed_data ! i) = Some (Inr s)"
        by (cases "map_of (processed_data ! i) field") auto
      from a i so obtain ident where
        id: "assigned ! i = AList.update ''identifier'' (Str ident) (processed_data ! i)"
          "(s, ident) \<in> set tbl" "s \<noteq> NaN \<longrightarrow> map_of tbl s = Some ident"
        by blast
      have "\<forall>v. s \<noteq> NaN \<and> map_of existing_identifiers s = Some v \<longrightarrow> ident = v"
        using keep id(3) by auto
      with s id show "\<exists>s ident.
            map_of (processed_data ! i) field = Some s \<and>
            assigned ! i = AList.update ''identifier'' (Str ident) (processed_data ! i) \<and>
            (s, ident) \<in> set tbl \<and>
            (s \<noteq> NaN \<longrightarrow> map_of tbl s = Some ident) \<and>
            (\<forall>v. s \<noteq> NaN \<and> map_of existing_identifiers s = Some v \<longrightarrow> ident = v)"
        by blast
    qed
    have a5: "distinct (map snd existing_identifiers) \<longrightarrow>
         distinct (map snd tbl) \<and>
         (\<forall>k1 k2 v. map_of tbl k1 = Some v \<and> map_of tbl k2 = Some v \<longrightarrow> k1 = k2)"
    proof
      assume "distinct (map snd existing_identifiers)"
      from assign_loop_distinct [OF n l this] have d: "distinct (map snd tbl)" .
      with distinct_values_inj [OF d] show "distinct (map snd tbl) \<and>
            (\<forall>k1 k2 v. map_of tbl k1 = Some v \<and> map_of tbl k2 = Some v \<longrightarrow> k1 = k2)"
        by blast
    qed
    show "(\<exists>new. tbl = existing_identifiers @ new) \<and>
      (\<forall>k v. map_of existing_identifiers k = Some v \<longrightarrow> map_of tbl k = Some v) \<and>
      length assigned = length processed_data \<and>
      ((category = ''Messenger'' \<and> field = ''Sender'') \<or>
       (category = ''SMS'' \<and> field = ''From/To'') \<or>
       (category = ''Calls'' \<and> field = ''From/To'') \<or>
       (category = ''Contacts'' \<and> field = ''Name'') \<longrightarrow>
         (\<forall>i<length processed_data. \<exists>s ident.
            map_of (processed_data ! i) field = Some s \<and>
            assigned ! i = AList.update ''identifier'' (Str ident) (processed_data ! i) \<and>
            (s, ident) \<in> set tbl \<and>
            (s \<noteq> NaN \<longrightarrow> map_of tbl s = Some ident) \<and>
            (\<forall>v. s \<noteq> NaN \<and> map_of existing_identifiers s = Some v \<longrightarrow> ident = v))) \<and>
      (distinct (map snd existing_identifiers) \<longrightarrow>
         distinct (map snd tbl) \<and>
         (\<forall>k1 k2 v. map_of tbl k1 = Some v \<and> map_of tbl k2 = Some v \<longrightarrow> k1 = k2))"
      by (rule conjI [OF a1 conjI [OF keep conjI [OF a3 conjI [OF a4 a5]]]])
  qed
next
  show "((category = ''Messenger'' \<and> field = ''Sender'') \<or>
     (category = ''SMS'' \<and> field = ''From/To'') \<or>
     (category = ''Calls'' \<and> field = ''From/To'') \<or>
     (category = ''Contacts'' \<and> field = ''Name'')) \<and>
    (\<forall>e\<in>set processed_data. map_of e field \<noteq> None) \<and>
    (\<forall>ident\<in>snd ` set existing_identifiers. \<exists>n. id_number ident = Inr n) \<longrightarrow>
      (\<exists>assigned' tbl'.
         assign_unique_identifiers processed_data category (Some existing_identifiers) =
           Inr (assigned', tbl'))"
  proof
    assume a: "((category = ''Messenger'' \<and> field = ''Sender'') \<or>
       (category = ''SMS'' \<and> field = ''From/To'') \<or>
       (category = ''Calls'' \<and> field = ''From/To'') \<or>
       (category = ''Contacts'' \<and> field = ''Name'')) \<and>
      (\<forall>e\<in>set processed_data. map_of e field \<noteq> None) \<and>
      (\<forall>ident\<in>snd ` set existing_identifiers. \<exists>n. id_number ident = Inr n)"
    then have cat: "(category = ''Messenger'' \<and> field = ''Sender'') \<or>
       (category = ''SMS'' \<and> field = ''From/To'') \<or>
       (category = ''Calls'' \<and> field = ''From/To'') \<or>
       (category = ''Contacts'' \<and> field = ''Name'')"
      and present: "\<forall>e\<in>set processed_data. map_of e field \<noteq> None"
      and wf: "\<forall>ident\<in>snd ` set existing_identifiers. \<exists>n. id_number ident = Inr n"
      by blast+
    from initial_next_id_total [OF wf] obtain n where
      n: "initial_next_id existing_identifiers = Inr n" by blast
    have sf: "sender_of category e = Some (getitem e field)" for e
      using cat by (auto simp: sender_of_def)
    have "\<forall>e\<in>set processed_data. \<forall>err. sender_of category e \<noteq> Some (Inl err)"
      using present getitem_cases(2) [OF sf] by blast
    from assign_loop_total [OF this, of existing_identifiers n] obtain r where
      "assign_loop category processed_data existing_identifiers n = Inr r" by blast
    with n show "\<exists>assigned' tbl'.
           assign_unique_identifiers processed_data category (Some existing_identifiers) =
             Inr (assigned', tbl')"
      by (cases r) (simp add: assign_unique_identifiers_def)
  qed
next
  show "assign_unique_identifiers processed_data category None =
      assign_unique_identifiers processed_data category (Some [])"
    by (simp add: assign_unique_identifiers_def)
qed

theorem assign_unique_identifiers_stable_witness:
  "assign_unique_identifiers [sms_row, call_row, sms_row] ''SMS''
       (Some [(Num 5551234, ''ID_007'')]) =
     Inr ([AList.update ''identifier'' (Str ''ID_007'') sms_row,
           AList.update ''identifier'' (Str ''ID_008'') call_row,
           AList.update ''identifier'' (Str ''ID_007'') sms_row],
          [(Num 5551234, ''ID_007''), (Str ''Carol'', ''ID_008'')]) \<and>
   (\<exists>new. [(Num 5551234, ''ID_007''), (Str ''Carol'', ''ID_008'')] =
            [(Num 5551234, ''ID_007'')] @ new) \<and>
   (\<exists>s ident.
      map_of ([sms_row, call_row, sms_row] ! 2) ''From/To'' = Some s \<and>
      [AList.update ''identifier'' (Str ''ID_007'') sms_row,
       AList.update ''identifier'' (Str ''ID_008'') call_row,
       AList.update ''identifier'' (Str ''ID_007'') sms_row] ! 2 =
        AList.update ''identifier'' (Str ident) ([sms_row, call_row, sms_row] ! 2) \<and>
      map_of [(Num 5551234, ''ID_007'')] s = Some ident) \<and>
   distinct (map snd [(Num 5551234, ''ID_007''), (Str ''Carol'', ''ID_008'')]) \<and>
   (\<exists>assigned' tbl'.
      assign_unique_identifiers [contact_row] ''Contacts'' (Some []) = Inr (assigned', tbl'))"
proof -
  have ex: "assign_unique_identifiers [sms_row, call_row, sms_row] ''SMS''
       (Some [(Num 5551234, ''ID_007'')]) =
     Inr ([AList.update ''identifier'' (Str ''ID_007'') sms_row,
           AList.update ''identifier'' (Str ''ID_008'') call_row,
           AList.update ''identifier'' (Str ''ID_007'') sms_row],
          [(Num 5551234, ''ID_007''), (Str ''Carol'', ''ID_008'')])"
    by (simp add: assign_unique_identifiers_def initial_next_id_def id_number_007
          assign_entry_def sender_of_def getitem_def sms_row_def call_row_def mint_8 lookup_def)
  note t = assign_unique_identifiers_stable
    [of "[sms_row, call_row, sms_row]" "''SMS''" "[(Num 5551234, ''ID_007'')]"
        "[AList.update ''identifier'' (Str ''ID_007'') sms_row,
          AList.update ''identifier'' (Str ''ID_008'') call_row,
          AList.update ''identifier'' (Str ''ID_007'') sms_row]"
        "[(Num 5551234, ''ID_007''), (Str ''Carol'', ''ID_008'')]" "''From/To''",
     THEN conjunct1, rule_format, OF ex]
  have cat: "(''SMS'' = ''Messenger'' \<and> ''From/To'' = ''Sender'') \<or>
       (''SMS'' = ''SMS'' \<and> ''From/To'' = ''From/To'') \<or>
       (''SMS'' = ''Calls'' \<and> ''From/To'' = ''From/To'') \<or>
       (''SMS'' = ''Contacts'' \<and> ''From/To'' = ''Name'')" by simp
  have d: "distinct (map snd [(Num 5551234, ''ID_007'')])" by simp
  have i: "(2::nat) < length [sms_row, call_row, sms_row]" by simp
  from t have 1: "\<exists>new. [(Num 5551234, ''ID_007''), (Str ''Carol'', ''ID_008'')] =
            [(Num 5551234, ''ID_007'')] @ new"
    by (rule conjunct1)
  from t have "\<forall>i<length [sms_row, call_row, sms_row]. \<exists>s ident.
      map_of ([sms_row, call_row, sms_row] ! i) ''From/To'' = Some s \<and>
      [AList.update ''identifier'' (Str ''ID_007'') sms_row,
       AList.update ''identifier'' (Str ''ID_008'') call_row,
       AList.update ''identifier'' (Str ''ID_007'') sms_row] ! i =
        AList.update ''identifier'' (Str ident) ([sms_row, call_row, sms_row] ! i) \<and>
      (s, ident) \<in> set [(Num 5551234, ''ID_007''), (Str ''Carol'', ''ID_008'')] \<and>
      (s \<noteq> NaN \<longrightarrow> map_of [(Num 5551234, ''ID_007''), (Str ''Carol'', ''ID_008'')] s = Some ident) \<and>
      (\<forall>v. s \<noteq> NaN \<and> map_of [(Num 5551234, ''ID_007'')] s = Some v \<longrightarrow> ident = v)"
    using cat by blast
  from this [rule_format, OF i] obtain s ident where
    s: "map_of ([sms_row, call_row, sms_row] ! 2) ''From/To'' = Some s" and
    a: "[AList.update ''identifier'' (Str ''ID_007'') sms_row,
       AList.update ''identifier'' (Str ''ID_008'') call_row,
       AList.update ''identifier'' (Str ''ID_007'') sms_row] ! 2 =
        AList.update ''identifier'' (Str ident) ([sms_row, call_row, sms_row] ! 2)" and
    v: "\<forall>v. s \<noteq> NaN \<and> map_of [(Num 5551234, ''ID_007'')] s = Some v \<longrightarrow> ident = v"
    by blast
  from s have s': "s = Num 5551234" by (simp add: sms_row_def)
  with v have "ident = ''ID_007''" by simp
  with s' have m: "map_of [(Num 5551234, ''ID_007'')] s = Some ident" by simp
  from s a m have 2: "\<exists>s ident.
      map_of ([sms_row, call_row, sms_row] ! 2) ''From/To'' = Some s \<and>
      [AList.update ''identifier'' (Str ''ID_007'') sms_row,
       AList.update ''identifier'' (Str ''ID_008'') call_row,
       AList.update ''identifier'' (Str ''ID_007'') sms_row] ! 2 =
        AList.update ''identifier'' (Str ident) ([sms_row, call_row, sms_row] ! 2) \<and>
      map_of [(Num 5551234, ''ID_007'')] s = Some ident"
    by blast
  from t d have 3: "distinct (map snd [(Num 5551234, ''ID_007''), (Str ''Carol'', ''ID_008'')])"
    by blast
  have h: "((''Contacts'' = ''Messenger'' \<and> ''Name'' = ''Sender'') \<or>
       (''Contacts'' = ''SMS'' \<and> ''Name'' = ''From/To'') \<or>
       (''Contacts'' = ''Calls'' \<and> ''Name'' = ''From/To'') \<or>
       (''Contacts'' = ''Contacts'' \<and> ''Name'' = ''Name'')) \<and>
      (\<forall>e\<in>set [contact_row]. map_of e ''Name'' \<noteq> None) \<and>
      (\<forall>ident\<in>snd ` set ([] :: table). \<exists>n. id_number ident = Inr n)"
    by (simp add: contact_row_def)
  from assign_unique_identifiers_stable
    [of "[contact_row]" "''Contacts''" "[]" "[]" "[]" "''Name''", THEN conjunct2,
     THEN conjunct1] h
  have 4: "\<exists>assigned' tbl'.
      assign_unique_identifiers [contact_row] ''Contacts'' (Some []) = Inr (assigned', tbl')"
    by (rule mp)
  from ex 1 2 3 4 show ?thesis by (intro conjI)
qed






text \<open>
  Claim C7, as stated: the error of a missing field identifies the offending record. The
  exception is the \<open>KeyError\<close> of the dictionary lookup and carries the name of the column:
  two batches whose offending records differ in content and in position raise the same
  exception.
\<close>

theorem KeyError_names_column_counterexample:
  "assign_unique_identifiers [[(''Time'', Str ''t1''), (''Text'', Str ''hi'')]] ''Messenger''
       (Some []) = Inl (KeyError ''Sender'') \<and>
   assign_unique_identifiers [alice_hi, [(''Time'', Str ''t9'')]] ''Messenger'' (Some []) =
     Inl (KeyError ''Sender'')"
  by (simp add: assign_unique_identifiers_def initial_next_id_def assign_entry_def sender_of_def
        getitem_def alice_hi_def lookup_def)

text \<open>
  Claim C7, amended. Take a batch of Messenger, SMS, Calls or Contacts in which some record
  lacks the identity field of the category (\<open>Sender\<close>, \<open>From/To\<close>, \<open>From/To\<close>, \<open>Name\<close>).
  Called with a table whose identifiers all carry a number, or with no table,
  \<open>assign_unique_identifiers\<close> raises \<open>KeyError\<close> with the name of that field; it returns
  neither records nor a table, so the record is not silently dropped. The exception names
  the column, not the record.
\<close>

theorem missing_identity_field_raises_KeyError:
  assumes "(category = ''Messenger'' \<and> field = ''Sender'') \<or>
           (category = ''SMS'' \<and> field = ''From/To'') \<or>
           (category = ''Calls'' \<and> field = ''From/To'') \<or>
           (category = ''Contacts'' \<and> field = ''Name'')"
      and "entry \<in> set processed_data"
      and "map_of entry field = None"
  shows "((\<forall>ident\<in>snd ` set existing_identifiers. \<exists>n. id_number ident = Inr n) \<longrightarrow>
            assign_unique_identifiers processed_data category (Some existing_identifiers) =
              Inl (KeyError field)) \<and>
         assign_unique_identifiers processed_data category None = Inl (KeyError field)"
proof -
  from assms(2,3) have "\<exists>x\<in>set processed_data. map_of x field = None" by blast
  from split_list_first_prop [OF this] obtain pre x post where
    p: "processed_data = pre @ x # post" and x: "map_of x field = None" and
    b: "\<forall>y\<in>set pre. map_of y field \<noteq> None"
    by blast
  have sf: "sender_of category e = Some (getitem e field)" for e
    using assms(1) by (auto simp: sender_of_def)
  have "\<forall>e\<in>set pre. \<forall>err. sender_of category e \<noteq> Some (Inl err)"
    using b getitem_cases(2) [OF sf] by blast
  moreover have "sender_of category x = Some (Inl (KeyError field))"
    using x by (simp add: getitem_cases(2) [OF sf])
  ultimately have l: "\<And>tbl n. assign_loop category processed_data tbl n = Inl (KeyError field)"
    unfolding p by (rule assign_loop_raises)
  have 1: "(\<forall>ident\<in>snd ` set existing_identifiers. \<exists>n. id_number ident = Inr n) \<longrightarrow>
      assign_unique_identifiers processed_data category (Some existing_identifiers) =
        Inl (KeyError field)"
  proof
    assume "\<forall>ident\<in>snd ` set existing_identifiers. \<exists>n. id_number ident = Inr n"
    from initial_next_id_total [OF this] obtain n where
      "initial_next_id existing_identifiers = Inr n" by blast
    with l show "assign_unique_identifiers processed_data category (Some existing_identifiers) =
        Inl (KeyError field)"
      by (simp add: assign_unique_identifiers_def)
  qed
  have 2: "assign_unique_identifiers processed_data category None = Inl (KeyError field)"
    using l by (simp add: assign_unique_identifiers_def initial_next_id_def)
  from 1 2 show ?thesis by (rule conjI)
qed

theorem missing_identity_field_raises_KeyError_witness:
  "assign_unique_identifiers [sms_row, [(''Text'', Str ''hey'')], call_row] ''SMS''
       (Some [(Num 5551234, ''ID_007'')]) = Inl (KeyError ''From/To'') \<and>
   assign_unique_identifiers [contact_row, [(''Phone Number'', Num 5550000)]] ''Contacts'' None =
     Inl (KeyError ''Name'')"
proof -
  have c1: "(''SMS'' = ''Messenger'' \<and> ''From/To'' = ''Sender'') \<or>
       (''SMS'' = ''SMS'' \<and> ''From/To'' = ''From/To'') \<or>
       (''SMS'' = ''Calls'' \<and> ''From/To'' = ''From/To'') \<or>
       (''SMS'' = ''Contacts'' \<and> ''From/To'' = ''Name'')" by simp
  have i1: "[(''Text'', Str ''hey'')] \<in> set [sms_row, [(''Text'', Str ''hey'')], call_row]"
    by simp
  have m1: "map_of [(''Text'', Str ''hey'')] ''From/To'' = None" by simp
  have w1: "\<forall>ident\<in>snd ` set [(Num 5551234, ''ID_007'')]. \<exists>n. id_number ident = Inr n"
    by (simp add: id_number_007)
  have c2: "(''Contacts'' = ''Messenger'' \<and> ''Name'' = ''Sender'') \<or>
       (''Contacts'' = ''SMS'' \<and> ''Name'' = ''From/To'') \<or>
       (''Contacts'' = ''Calls'' \<and> ''Name'' = ''From/To'') \<or>
       (''Contacts'' = ''Contacts'' \<and> ''Name'' = ''Name'')" by simp
  have i2: "[(''Phone Number'', Num 5550000)] \<in>
      set [contact_row, [(''Phone Number'', Num 5550000)]]"
    by simp
  have m2: "map_of [(''Phone Number'', Num 5550000)] ''Name'' = None" by simp
  from missing_identity_field_raises_KeyError
         [OF c1 i1 m1, of "[(Num 5551234, ''ID_007'')]", THEN conjunct1] w1
  have 1: "assign_unique_identifiers [sms_row, [(''Text'', Str ''hey'')], call_row] ''SMS''
       (Some [(Num 5551234, ''ID_007'')]) = Inl (KeyError ''From/To'')"
    by (rule mp)
  from missing_identity_field_raises_KeyError [OF c2 i2 m2, of "[]", THEN conjunct2]
  have 2: "assign_unique_identifiers [contact_row, [(''Phone Number'', Num 5550000)]]
       ''Contacts'' None = Inl (KeyError ''Name'')" .
  have "assign_unique_identifiers [contact_row] ''Contacts'' None =
      Inr ([AList.update ''identifier'' (Str ''ID_001'') contact_row], [(Str ''Dave'', ''ID_001'')])"
    by (simp add: assign_unique_identifiers_def initial_next_id_def assign_entry_def
          sender_of_def getitem_def contact_row_def lookup_def mint_examples)
  with 1 2 show ?thesis by (intro conjI)
qed

subsection \<open>Standardizing time stamps and running the pipeline\<close>

lemma parse_strftime_not_string:
  "\<forall>s. v \<noteq> Str s \<Longrightarrow> parse_strftime p v = Inl TypeError"
  by (cases v) (simp_all add: parse_strftime_def)

lemma standardize_field_lookup:
  assumes "standardize_field p row field = Inr row'"
  shows "map_of row' g =
           (if g = field then
              (case map_of row field of
                 None \<Rightarrow> None
               | Some v \<Rightarrow>
                   (case parse_strftime p v of Inr t \<Rightarrow> Some (Str t) | Inl e \<Rightarrow> Some Null))
            else map_of row g)"
  using assms
  by (auto simp: standardize_field_def update_conv' split: option.splits sum.splits if_splits)

lemma standardize_field_value:
  assumes "standardize_field p row field = Inr row'" and "map_of row field = Some v"
  shows "(\<exists>t. parse_strftime p v = Inr t \<and> map_of row' field = Some (Str t)) \<or>
         (parse_strftime p v = Inl ValueError \<and> map_of row' field = Some Null)"
  using assms
  by (auto simp: standardize_field_def update_conv' split: option.splits sum.splits if_splits)

lemma standardize_field_raises:
  "standardize_field p row field = Inl e \<longleftrightarrow>
     (\<exists>v. map_of row field = Some v \<and> parse_strftime p v = Inl e \<and> e \<noteq> ValueError)"
  by (auto simp: standardize_field_def split: option.splits sum.splits)

lemma standardize_fields_lookup:
  "standardize_fields p row fs = Inr row' \<Longrightarrow> distinct fs \<Longrightarrow>
     (\<forall>g. g \<notin> set fs \<longrightarrow> map_of row' g = map_of row g) \<and>
     (\<forall>f\<in>set fs. map_of row f = None \<longrightarrow> map_of row' f = None) \<and>
     (\<forall>f\<in>set fs. \<forall>v. map_of row f = Some v \<longrightarrow>
        (\<exists>t. parse_strftime p v = Inr t \<and> map_of row' f = Some (Str t)) \<or>
        (parse_strftime p v = Inl ValueError \<and> map_of row' f = Some Null))"
proof (induction fs arbitrary: row)
  case Nil
  then show ?case by simp
next
  case (Cons f fs)
  from Cons.prems(1) obtain row1 where
    s: "standardize_field p row f = Inr row1" and
    r: "standardize_fields p row1 fs = Inr row'"
    by (auto split: sum.splits)
  from Cons.prems(2) have d: "distinct fs" and nf: "f \<notin> set fs" by simp_all
  note ih = Cons.IH [OF r d]
  note l = standardize_field_lookup [OF s]
  show ?case
  proof (intro conjI allI ballI impI)
    fix g assume "g \<notin> set (f # fs)"
    with ih l show "map_of row' g = map_of row g" by simp
  next
    fix g assume "g \<in> set (f # fs)" "map_of row g = None"
    with ih l nf show "map_of row' g = None" by (cases "g = f") auto
  next
    fix g v assume g: "g \<in> set (f # fs)" and v: "map_of row g = Some v"
    show "(\<exists>t. parse_strftime p v = Inr t \<and> map_of row' g = Some (Str t)) \<or>
          (parse_strftime p v = Inl ValueError \<and> map_of row' g = Some Null)"
    proof (cases "g = f")
      case True
      with ih nf have "map_of row' g = map_of row1 g" by simp
      with True standardize_field_value [OF s] v show ?thesis by simp
    next
      case False
      with g have "g \<in> set fs" by simp
      moreover from False l v have "map_of row1 g = Some v" by simp
      ultimately show ?thesis using ih by blast
    qed
  qed
qed

lemma standardize_fields_raises:
  "standardize_fields p row fs = Inl e \<Longrightarrow> e \<noteq> ValueError"
  by (induction fs arbitrary: row) (auto simp: standardize_field_raises split: sum.splits)

lemma standardize_fields_aborts:
  "f \<in> set fs \<Longrightarrow> map_of row f = Some v \<Longrightarrow> parse_strftime p v = Inl e0 \<Longrightarrow>
     e0 \<noteq> ValueError \<Longrightarrow> distinct fs \<Longrightarrow> \<exists>e. standardize_fields p row fs = Inl e"
proof (induction fs arbitrary: row)
  case Nil
  then show ?case by simp
next
  case (Cons g fs)
  show ?case
  proof (cases "standardize_field p row g")
    case (Inl e)
    then show ?thesis by simp
  next
    case (Inr row1)
    with Cons.prems(2,3,4) have "g \<noteq> f"
      by (auto simp: standardize_field_def split: option.splits sum.splits)
    with Cons.prems(1) have "f \<in> set fs" by simp
    moreover from \<open>g \<noteq> f\<close> Cons.prems(2) have "map_of row1 f = Some v"
      by (simp add: standardize_field_lookup [OF Inr])
    moreover from Cons.prems(5) have "distinct fs" by simp
    ultimately have "\<exists>e. standardize_fields p row1 fs = Inl e"
      using Cons.prems(3,4) by (intro Cons.IH)
    with Inr show ?thesis by simp
  qed
qed

lemma standardize_time_formats_raises:
  "standardize_time_formats p rows = Inl e \<Longrightarrow> e \<noteq> ValueError"
  by (induction rows) (auto dest: standardize_fields_raises split: sum.splits)

lemma standardize_time_formats_aborts:
  assumes "row \<in> set rows" and "f \<in> set time_fields" and "map_of row f = Some v"
      and "parse_strftime p v = Inl e0" and "e0 \<noteq> ValueError"
  shows "\<exists>e. standardize_time_formats p rows = Inl e"
  using assms(1)
proof (induction rows)
  case Nil
  then show ?case by simp
next
  case (Cons r rows)
  have d: "distinct time_fields" by (simp add: time_fields_def)
  show ?case
  proof (cases "r = row")
    case True
    from standardize_fields_aborts [OF assms(2) assms(3) assms(4) assms(5) d] True
    show ?thesis by auto
  next
    case False
    with Cons show ?thesis by (auto split: sum.splits)
  qed
qed

lemma standardize_time_formats_rows:
  "standardize_time_formats p rows = Inr rows' \<Longrightarrow>
     length rows' = length rows \<and>
     (\<forall>i<length rows. standardize_fields p (rows ! i) time_fields = Inr (rows' ! i))"
proof (induction rows arbitrary: rows')
  case Nil
  then show ?case by simp
next
  case (Cons r rows)
  from Cons.prems obtain r' rest where
    a: "standardize_fields p r time_fields = Inr r'" and
    b: "standardize_time_formats p rows = Inr rest" and c: "rows' = r' # rest"
    by (auto split: sum.splits)
  from Cons.IH [OF b] a c show ?case
    by (auto simp: nth_Cons split: nat.splits)
qed

lemma try_body_db:
  "try_body h self = (self', r) \<Longrightarrow>
     (r \<noteq> None \<longrightarrow> db self' = db self) \<and>
     (r = None \<longrightarrow>
        (\<exists>existing_data csv_data rows categorized final_data merged.
           load_json_data (db self) = Inr existing_data \<and>
           csv_file self = Inr csv_data \<and>
           standardize_time_formats (parser h) csv_data = Inr rows \<and>
           detect_and_categorize h rows = Inr categorized \<and>
           prevent_duplicates h categorized = Inr final_data \<and>
           merge_loop final_data existing_data = Inr merged \<and>
           writable (db self) \<and> unique_identifiers self \<noteq> None \<and>
           db self' = (db self)\<lparr>document := Some merged\<rparr>))"
  by (auto simp: try_body_def save_json_data_def split: sum.splits option.splits if_splits)

lemma unbound_global_never_saves:
  "unique_identifiers self = None \<Longrightarrow> try_body h self = (self', r) \<Longrightarrow> r \<noteq> None \<and> db self' = db self"
  using try_body_db [of h self self' r] by (cases r) auto

lemma distinct_time_fields: "distinct time_fields"
  by (simp add: time_fields_def)

lemma process_data_cases:
  "process_data h self = (self', outcome) \<Longrightarrow>
     (outcome = NoFileUploaded \<and> self' = self) \<or>
     (outcome = CategoryNotDetected \<and> self' = self) \<or>
     (\<exists>e. outcome = ProcessingError e \<and> try_body h self = (self', Some e)) \<or>
     (outcome = Saved \<and> try_body h self = (self', None) \<and>
        data_category self \<noteq> None \<and> file_path self \<noteq> None)"
  by (auto simp: process_data_def split: if_splits prod.splits option.splits)

lemma process_data_aborts:
  assumes "file_path self = Some path" "path \<noteq> []" "data_category self = Some c" "c \<noteq> []"
      and "try_body h self = (self', Some e)"
  shows "process_data h self = (self', ProcessingError e)"
  using assms by (simp add: process_data_def)

lemma try_body_standardize_raises:
  assumes "readable (db self)" and "csv_file self = Inr csv_data"
      and "standardize_time_formats (parser h) csv_data = Inl e"
  shows "try_body h self = (self, Some e)"
  using assms by (simp add: try_body_def load_json_data_def)

lemmas standardize_eval =
  time_fields_def standardize_field_def parse_strftime_def example_parser_def

lemma standardize_alice:
  "standardize_time_formats example_parser [alice_hi] = Inr [AList.update ''Time'' Null alice_hi]"
  by (simp add: standardize_eval alice_hi_def)

lemma try_body_steps:
  assumes "load_json_data (db self) = Inr existing_data" and "csv_file self = Inr csv_data"
      and "standardize_time_formats (parser h) csv_data = Inr rows"
      and "detect_and_categorize h rows = Inr categorized"
      and "prevent_duplicates h categorized = Inr final_data"
      and "merge_loop final_data existing_data = Inr merged"
      and "unique_identifiers self = Some known" and "stored_identifiers merged = Inr ids"
  shows "try_body h self =
           (case save_json_data merged (db self) of
              Inl e \<Rightarrow> (self\<lparr>unique_identifiers := Some (dict_update known ids)\<rparr>, Some e)
            | Inr d \<Rightarrow>
                (self\<lparr>unique_identifiers := Some (dict_update known ids), db := d\<rparr>, None))"
  by (simp add: try_body_def assms)

lemma example_state_simps:
  "file_path (example_state csv_data w) = Some ''upload.csv''"
  "data_category (example_state csv_data w) = Some ''Messenger''"
  "csv_file (example_state csv_data w) = Inr csv_data"
  "unique_identifiers (example_state csv_data w) = Some []"
  "db (example_state csv_data w) = \<lparr>document = None, readable = True, writable = w\<rparr>"
  by (simp_all add: example_state_def)

lemma example_helpers_simps:
  "parser example_helpers = example_parser"
  "detect_and_categorize example_helpers rows = Inr [(''Messenger'', rows)]"
  "prevent_duplicates example_helpers categorized_data = Inr categorized_data"
  by (simp_all add: example_helpers_def)

lemma try_body_alice:
  "try_body example_helpers (example_state [alice_hi] w) =
     (case save_json_data [(''Messenger'', Records [AList.update ''Time'' Null alice_hi])]
             (db (example_state [alice_hi] w)) of
        Inl e \<Rightarrow> ((example_state [alice_hi] w)\<lparr>unique_identifiers := Some (dict_update [] [])\<rparr>,
                  Some e)
      | Inr d \<Rightarrow>
          ((example_state [alice_hi] w)\<lparr>unique_identifiers := Some (dict_update [] []), db := d\<rparr>,
           None))"
proof (rule try_body_steps)
  show "load_json_data (db (example_state [alice_hi] w)) = Inr []"
    by (simp add: example_state_simps load_json_data_def)
  show "csv_file (example_state [alice_hi] w) = Inr [alice_hi]"
    by (simp add: example_state_simps)
  show "standardize_time_formats (parser example_helpers) [alice_hi] =
      Inr [AList.update ''Time'' Null alice_hi]"
    by (simp only: example_helpers_simps standardize_alice)
  show "detect_and_categorize example_helpers [AList.update ''Time'' Null alice_hi] =
      Inr [(''Messenger'', [AList.update ''Time'' Null alice_hi])]"
    by (simp add: example_helpers_simps)
  show "prevent_duplicates example_helpers [(''Messenger'', [AList.update ''Time'' Null alice_hi])] =
      Inr [(''Messenger'', [AList.update ''Time'' Null alice_hi])]"
    by (simp add: example_helpers_simps)
  show "merge_loop [(''Messenger'', [AList.update ''Time'' Null alice_hi])] [] =
      Inr [(''Messenger'', Records [AList.update ''Time'' Null alice_hi])]"
    by (simp add: extend_category_def)
  show "unique_identifiers (example_state [alice_hi] w) = Some []"
    by (simp add: example_state_simps)
  show "stored_identifiers [(''Messenger'', Records [AList.update ''Time'' Null alice_hi])] = Inr []"
    by (simp add: stored_identifiers_def)
qed

lemma guards_example:
  "process_data example_helpers (example_state csv_data w) =
     (case try_body example_helpers (example_state csv_data w) of
        (self', Some e) \<Rightarrow> (self', ProcessingError e)
      | (self', None) \<Rightarrow> (self', Saved))"
  by (simp add: process_data_def example_state_simps)

lemma run_save_fails:
  "process_data example_helpers (example_state [alice_hi] False) =
     (example_state [alice_hi] False, ProcessingError PersistenceError)"
  by (simp add: guards_example try_body_alice save_json_data_def example_state_simps
        dict_update_def)

lemma run_saved:
  "process_data example_helpers (example_state [alice_hi] True) =
     ((example_state [alice_hi] True)
        \<lparr>db := \<lparr>document = Some [(''Messenger'', Records [AList.update ''Time'' Null alice_hi])],
                readable = True, writable = True\<rparr>\<rparr>,
      Saved)"
  by (simp add: guards_example try_body_alice save_json_data_def example_state_simps
        dict_update_def)

text \<open>
  Claim C6. A run of \<open>process_data\<close> that does not end with the store saved leaves the file
  of the store as it was: this covers a category that was not detected, an exception raised
  by any step of the \<open>try\<close> (reading, time stamps, categorizing, filtering, merging), and a
  save that fails. A run that ends with the store saved has written the whole merge: the
  document is the loaded store with all of \<open>final_data\<close> merged. The merge works on the
  loaded dictionary and \<open>save_json_data\<close> is the only step that writes; that a save is all
  or nothing is the contract section 4.5 gives it.
\<close>

theorem process_data_commits_all_or_nothing:
  assumes "process_data h self = (self', outcome)"
  shows "(outcome \<noteq> Saved \<longrightarrow> db self' = db self) \<and>
         (outcome = Saved \<longrightarrow>
            (\<exists>existing_data csv_data rows categorized final_data merged.
               load_json_data (db self) = Inr existing_data \<and>
               csv_file self = Inr csv_data \<and>
               standardize_time_formats (parser h) csv_data = Inr rows \<and>
               detect_and_categorize h rows = Inr categorized \<and>
               prevent_duplicates h categorized = Inr final_data \<and>
               merge_loop final_data existing_data = Inr merged \<and>
               db self' = (db self)\<lparr>document := Some merged\<rparr>)) \<and>
         (data_category self = None \<longrightarrow> outcome = CategoryNotDetected \<or> outcome = NoFileUploaded) \<and>
         (\<not> writable (db self) \<longrightarrow> outcome \<noteq> Saved)"
proof -
  from process_data_cases [OF assms] show ?thesis
  proof (elim disjE conjE exE)
    assume "outcome = NoFileUploaded" "self' = self"
    then show ?thesis by simp
  next
    assume "outcome = CategoryNotDetected" "self' = self"
    then show ?thesis by simp
  next
    fix e assume o: "outcome = ProcessingError e" and t: "try_body h self = (self', Some e)"
    from try_body_db [OF t] have "db self' = db self" by simp
    moreover from assms o have "data_category self \<noteq> None"
      by (auto simp: process_data_def split: if_splits)
    ultimately show ?thesis using o by simp
  next
    assume o: "outcome = Saved" and t: "try_body h self = (self', None)"
      and c: "data_category self \<noteq> None"
    from try_body_db [OF t] o c show ?thesis by auto
  qed
qed

theorem process_data_commits_all_or_nothing_witness:
  "process_data example_helpers (example_state [alice_hi] False) =
     (example_state [alice_hi] False, ProcessingError PersistenceError) \<and>
   db (example_state [alice_hi] False) = \<lparr>document = None, readable = True, writable = False\<rparr> \<and>
   snd (process_data example_helpers (example_state [alice_hi] True)) = Saved \<and>
   (\<exists>merged.
      merge_loop [(''Messenger'', [AList.update ''Time'' Null alice_hi])] [] = Inr merged \<and>
      db (fst (process_data example_helpers (example_state [alice_hi] True))) =
        (db (example_state [alice_hi] True))\<lparr>document := Some merged\<rparr>)"
proof -
  note f = process_data_commits_all_or_nothing [OF run_save_fails]
  note s = process_data_commits_all_or_nothing [OF run_saved]
  from f have 1: "db (example_state [alice_hi] False) = db (example_state [alice_hi] False)"
    by blast
  from s obtain existing_data csv_data rows categorized final_data merged where
    l: "load_json_data (db (example_state [alice_hi] True)) = Inr existing_data" and
    c: "csv_file (example_state [alice_hi] True) = Inr csv_data" and
    r: "standardize_time_formats (parser example_helpers) csv_data = Inr rows" and
    d: "detect_and_categorize example_helpers rows = Inr categorized" and
    p: "prevent_duplicates example_helpers categorized = Inr final_data" and
    m: "merge_loop final_data existing_data = Inr merged" and
    b: "db ((example_state [alice_hi] True)
          \<lparr>db := \<lparr>document = Some [(''Messenger'', Records [AList.update ''Time'' Null alice_hi])],
                  readable = True, writable = True\<rparr>\<rparr>) =
        (db (example_state [alice_hi] True))\<lparr>document := Some merged\<rparr>"
    by blast
  from l have e1: "existing_data = []"
    by (simp add: load_json_data_def example_state_simps)
  from c have e2: "csv_data = [alice_hi]" by (simp add: example_state_simps)
  from r have "standardize_time_formats example_parser [alice_hi] = Inr rows"
    by (simp only: e2 example_helpers_simps)
  then have e3: "rows = [AList.update ''Time'' Null alice_hi]"
    by (simp only: standardize_alice sum.inject)
  from d have e4: "categorized = [(''Messenger'', [AList.update ''Time'' Null alice_hi])]"
    by (simp only: e3 example_helpers_simps sum.inject)
  from p have e5: "final_data = [(''Messenger'', [AList.update ''Time'' Null alice_hi])]"
    by (simp only: e4 example_helpers_simps sum.inject)
  from m have m': "merge_loop [(''Messenger'', [AList.update ''Time'' Null alice_hi])] [] = Inr merged"
    by (simp only: e1 e5)
  from b have b': "db (fst (process_data example_helpers (example_state [alice_hi] True))) =
        (db (example_state [alice_hi] True))\<lparr>document := Some merged\<rparr>"
    by (simp only: run_saved fst_conv)
  have 2: "snd (process_data example_helpers (example_state [alice_hi] True)) = Saved"
    by (simp only: run_saved snd_conv)
  have 3: "db (example_state [alice_hi] False) =
      \<lparr>document = None, readable = True, writable = False\<rparr>"
    by (simp add: example_state_simps)
  from run_save_fails 3 2 m' b' show ?thesis by blast
qed


subsection \<open>Time stamps that are no strings\<close>

lemma standardize_field_total:
  assumes "\<forall>v. map_of row field = Some v \<longrightarrow>
             (\<exists>t. parse_strftime p v = Inr t) \<or> parse_strftime p v = Inl ValueError"
  shows "\<exists>row'. standardize_field p row field = Inr row'"
  using assms by (auto simp: standardize_field_def split: option.splits sum.splits)

lemma standardize_fields_total:
  "distinct fs \<Longrightarrow>
   \<forall>f\<in>set fs. \<forall>v. map_of row f = Some v \<longrightarrow>
     (\<exists>t. parse_strftime p v = Inr t) \<or> parse_strftime p v = Inl ValueError \<Longrightarrow>
   \<exists>row'. standardize_fields p row fs = Inr row'"
proof (induction fs arbitrary: row)
  case Nil
  then show ?case by simp
next
  case (Cons f fs)
  from Cons.prems(2) have "\<forall>v. map_of row f = Some v \<longrightarrow>
      (\<exists>t. parse_strftime p v = Inr t) \<or> parse_strftime p v = Inl ValueError"
    by simp
  from standardize_field_total [OF this] obtain row1 where
    s: "standardize_field p row f = Inr row1" by blast
  from Cons.prems(1) have d: "distinct fs" and nf: "f \<notin> set fs" by simp_all
  have "\<forall>g\<in>set fs. \<forall>v. map_of row1 g = Some v \<longrightarrow>
      (\<exists>t. parse_strftime p v = Inr t) \<or> parse_strftime p v = Inl ValueError"
  proof (intro ballI allI impI)
    fix g v assume g: "g \<in> set fs" and v: "map_of row1 g = Some v"
    from g nf have "g \<noteq> f" by blast
    with v have "map_of row g = Some v" by (simp add: standardize_field_lookup [OF s])
    with g Cons.prems(2)
    show "(\<exists>t. parse_strftime p v = Inr t) \<or> parse_strftime p v = Inl ValueError"
      by simp
  qed
  from Cons.IH [OF d this] s show ?case by simp
qed

lemma standardize_time_formats_total:
  "\<forall>row\<in>set rows. \<forall>f\<in>set time_fields. \<forall>v. map_of row f = Some v \<longrightarrow>
     (\<exists>t. parse_strftime p v = Inr t) \<or> parse_strftime p v = Inl ValueError \<Longrightarrow>
   \<exists>rows'. standardize_time_formats p rows = Inr rows'"
proof (induction rows)
  case Nil
  then show ?case by simp
next
  case (Cons r rows)
  from Cons.prems have "\<forall>f\<in>set time_fields. \<forall>v. map_of r f = Some v \<longrightarrow>
     (\<exists>t. parse_strftime p v = Inr t) \<or> parse_strftime p v = Inl ValueError"
    by simp
  from standardize_fields_total [OF distinct_time_fields this] obtain r' where
    "standardize_fields p r time_fields = Inr r'" by blast
  moreover from Cons.IH Cons.prems obtain rows' where
    "standardize_time_formats p rows = Inr rows'" by auto
  ultimately show ?case by simp
qed

lemma standardize_time_formats_cells:
  assumes "standardize_time_formats p csv_data = Inr rows" and "i < length csv_data"
  shows "field \<in> set time_fields \<Longrightarrow> map_of (csv_data ! i) field = None \<Longrightarrow>
           map_of (rows ! i) field = None"
    and "field \<in> set time_fields \<Longrightarrow> map_of (csv_data ! i) field = Some v \<Longrightarrow>
           (\<exists>t. parse_strftime p v = Inr t \<and> map_of (rows ! i) field = Some (Str t)) \<or>
           (parse_strftime p v = Inl ValueError \<and> map_of (rows ! i) field = Some Null)"
    and "field \<notin> set time_fields \<Longrightarrow> map_of (rows ! i) field = map_of (csv_data ! i) field"
proof -
  from standardize_time_formats_rows [OF assms(1)] assms(2) have
    "standardize_fields p (csv_data ! i) time_fields = Inr (rows ! i)" by simp
  note l = standardize_fields_lookup [OF this distinct_time_fields]
  from l show "field \<in> set time_fields \<Longrightarrow> map_of (csv_data ! i) field = None \<Longrightarrow>
           map_of (rows ! i) field = None" by blast
  from l show "field \<in> set time_fields \<Longrightarrow> map_of (csv_data ! i) field = Some v \<Longrightarrow>
           (\<exists>t. parse_strftime p v = Inr t \<and> map_of (rows ! i) field = Some (Str t)) \<or>
           (parse_strftime p v = Inl ValueError \<and> map_of (rows ! i) field = Some Null)" by blast
  from l show "field \<notin> set time_fields \<Longrightarrow>
      map_of (rows ! i) field = map_of (csv_data ! i) field" by blast
qed

lemma standardize_time_formats_not_string:
  assumes "row \<in> set csv_data" and "field \<in> set time_fields"
      and "map_of row field = Some v" and "\<forall>s. v \<noteq> Str s"
  shows "\<exists>e. standardize_time_formats p csv_data = Inl e \<and> e \<noteq> ValueError"
proof -
  from assms(4) have t: "parse_strftime p v = Inl TypeError" by (rule parse_strftime_not_string)
  from standardize_time_formats_aborts [OF assms(1,2,3) t]
  obtain e where e: "standardize_time_formats p csv_data = Inl e" by auto
  with standardize_time_formats_raises [OF e] show ?thesis by blast
qed

lemma process_data_standardize_raises:
  assumes "standardize_time_formats (parser h) csv_data = Inl e"
      and "csv_file self = Inr csv_data" and "readable (db self)"
      and "file_path self = Some path" and "path \<noteq> []"
      and "data_category self = Some c" and "c \<noteq> []"
  shows "process_data h self = (self, ProcessingError e)"
proof -
  from assms(3,2,1) have "try_body h self = (self, Some e)"
    by (rule try_body_standardize_raises)
  with assms(4-7) show ?thesis by (rule process_data_aborts)
qed

lemma example_state_guards:
  "parser example_helpers = example_parser \<and>
   csv_file (example_state csv_data True) = Inr csv_data \<and>
   readable (db (example_state csv_data True)) \<and>
   file_path (example_state csv_data True) = Some ''upload.csv'' \<and>
   ''upload.csv'' \<noteq> [] \<and>
   data_category (example_state csv_data True) = Some ''Messenger'' \<and>
   ''Messenger'' \<noteq> []"
  by (simp add: example_helpers_simps example_state_simps)

text \<open>
  Claim C10. When the time stamps of a table are standardized without an exception, every
  row keeps its other fields, and each of the fields \<open>Time\<close>, \<open>Last Contacted\<close> and
  \<open>Installed Date\<close> that is present holds the formatted time stamp when the parser accepted
  the cell, and \<open>None\<close> when the parser raised \<open>ValueError\<close>; a field that is absent stays
  absent. Standardizing does return when the parser does one or the other on every cell of
  these three fields. Only \<open>ValueError\<close> is handled: when some row holds a cell that is no
  string (a missing cell read as NaN, a number, \<open>None\<close>) in one of the three fields, the
  parser raises \<open>TypeError\<close> for it, standardizing raises an exception other than
  \<open>ValueError\<close>, and a run of \<open>process_data\<close> on the table ends with that error and the
  state unchanged instead of setting the field to \<open>None\<close>.
\<close>

theorem standardize_time_formats_handles_ValueError_only:
  "(standardize_time_formats p csv_data = Inr rows \<longrightarrow>
      length rows = length csv_data \<and>
      (\<forall>i<length csv_data. \<forall>field.
         (field = ''Time'' \<or> field = ''Last Contacted'' \<or> field = ''Installed Date'' \<longrightarrow>
            (map_of (csv_data ! i) field = None \<longrightarrow> map_of (rows ! i) field = None) \<and>
            (\<forall>v. map_of (csv_data ! i) field = Some v \<longrightarrow>
               (\<exists>t. parse_strftime p v = Inr t \<and> map_of (rows ! i) field = Some (Str t)) \<or>
               (parse_strftime p v = Inl ValueError \<and> map_of (rows ! i) field = Some Null))) \<and>
         (field \<noteq> ''Time'' \<and> field \<noteq> ''Last Contacted'' \<and> field \<noteq> ''Installed Date'' \<longrightarrow>
            map_of (rows ! i) field = map_of (csv_data ! i) field))) \<and>
   ((\<forall>row\<in>set csv_data. \<forall>field v.
       (field = ''Time'' \<or> field = ''Last Contacted'' \<or> field = ''Installed Date'') \<and>
       map_of row field = Some v \<longrightarrow>
         (\<exists>t. parse_strftime p v = Inr t) \<or> parse_strftime p v = Inl ValueError) \<longrightarrow>
      (\<exists>rows'. standardize_time_formats p csv_data = Inr rows')) \<and>
   (\<forall>row\<in>set csv_data. \<forall>field v.
      (field = ''Time'' \<or> field = ''Last Contacted'' \<or> field = ''Installed Date'') \<and>
      map_of row field = Some v \<and> (\<forall>s. v \<noteq> Str s) \<longrightarrow>
        parse_strftime p v = Inl TypeError \<and>
        (\<exists>e. standardize_time_formats p csv_data = Inl e \<and> e \<noteq> ValueError) \<and>
        (\<forall>(h :: helpers) (self :: app_state) path c.
           parser h = p \<and> csv_file self = Inr csv_data \<and> readable (db self) \<and>
           file_path self = Some path \<and> path \<noteq> [] \<and> data_category self = Some c \<and> c \<noteq> [] \<longrightarrow>
             (\<exists>e. process_data h self = (self, ProcessingError e) \<and> e \<noteq> ValueError)))"
proof -
  have time_field_iff: "f \<in> set time_fields \<longleftrightarrow>
      f = ''Time'' \<or> f = ''Last Contacted'' \<or> f = ''Installed Date''" for f
    by (simp add: time_fields_def)
  have 1: "standardize_time_formats p csv_data = Inr rows \<longrightarrow>
      length rows = length csv_data \<and>
      (\<forall>i<length csv_data. \<forall>field.
         (field = ''Time'' \<or> field = ''Last Contacted'' \<or> field = ''Installed Date'' \<longrightarrow>
            (map_of (csv_data ! i) field = None \<longrightarrow> map_of (rows ! i) field = None) \<and>
            (\<forall>v. map_of (csv_data ! i) field = Some v \<longrightarrow>
               (\<exists>t. parse_strftime p v = Inr t \<and> map_of (rows ! i) field = Some (Str t)) \<or>
               (parse_strftime p v = Inl ValueError \<and> map_of (rows ! i) field = Some Null))) \<and>
         (field \<noteq> ''Time'' \<and> field \<noteq> ''Last Contacted'' \<and> field \<noteq> ''Installed Date'' \<longrightarrow>
            map_of (rows ! i) field = map_of (csv_data ! i) field))"
  proof
    assume s: "standardize_time_formats p csv_data = Inr rows"
    from standardize_time_formats_rows [OF s] have n: "length rows = length csv_data" by simp
    have "\<forall>i<length csv_data. \<forall>field.
         (field = ''Time'' \<or> field = ''Last Contacted'' \<or> field = ''Installed Date'' \<longrightarrow>
            (map_of (csv_data ! i) field = None \<longrightarrow> map_of (rows ! i) field = None) \<and>
            (\<forall>v. map_of (csv_data ! i) field = Some v \<longrightarrow>
               (\<exists>t. parse_strftime p v = Inr t \<and> map_of (rows ! i) field = Some (Str t)) \<or>
               (parse_strftime p v = Inl ValueError \<and> map_of (rows ! i) field = Some Null))) \<and>
         (field \<noteq> ''Time'' \<and> field \<noteq> ''Last Contacted'' \<and> field \<noteq> ''Installed Date'' \<longrightarrow>
            map_of (rows ! i) field = map_of (csv_data ! i) field)"
    proof (intro allI impI)
      fix i field
      assume i: "i < length csv_data"
      note c = standardize_time_formats_cells [OF s i, of field]
      have a: "field = ''Time'' \<or> field = ''Last Contacted'' \<or> field = ''Installed Date'' \<longrightarrow>
            (map_of (csv_data ! i) field = None \<longrightarrow> map_of (rows ! i) field = None) \<and>
            (\<forall>v. map_of (csv_data ! i) field = Some v \<longrightarrow>
               (\<exists>t. parse_strftime p v = Inr t \<and> map_of (rows ! i) field = Some (Str t)) \<or>
               (parse_strftime p v = Inl ValueError \<and> map_of (rows ! i) field = Some Null))"
        unfolding time_field_iff [symmetric] using c(1,2) by blast
      have "field \<notin> set time_fields \<longrightarrow> map_of (rows ! i) field = map_of (csv_data ! i) field"
        using c(3) by blast
      then have b: "field \<noteq> ''Time'' \<and> field \<noteq> ''Last Contacted'' \<and> field \<noteq> ''Installed Date'' \<longrightarrow>
            map_of (rows ! i) field = map_of (csv_data ! i) field"
        unfolding time_field_iff by simp
      from a b show "(field = ''Time'' \<or> field = ''Last Contacted'' \<or> field = ''Installed Date'' \<longrightarrow>
            (map_of (csv_data ! i) field = None \<longrightarrow> map_of (rows ! i) field = None) \<and>
            (\<forall>v. map_of (csv_data ! i) field = Some v \<longrightarrow>
               (\<exists>t. parse_strftime p v = Inr t \<and> map_of (rows ! i) field = Some (Str t)) \<or>
               (parse_strftime p v = Inl ValueError \<and> map_of (rows ! i) field = Some Null))) \<and>
         (field \<noteq> ''Time'' \<and> field \<noteq> ''Last Contacted'' \<and> field \<noteq> ''Installed Date'' \<longrightarrow>
            map_of (rows ! i) field = map_of (csv_data ! i) field)"
        by (rule conjI)
    qed
    with n show "length rows = length csv_data \<and>
      (\<forall>i<length csv_data. \<forall>field.
         (field = ''Time'' \<or> field = ''Last Contacted'' \<or> field = ''Installed Date'' \<longrightarrow>
            (map_of (csv_data ! i) field = None \<longrightarrow> map_of (rows ! i) field = None) \<and>
            (\<forall>v. map_of (csv_data ! i) field = Some v \<longrightarrow>
               (\<exists>t. parse_strftime p v = Inr t \<and> map_of (rows ! i) field = Some (Str t)) \<or>
               (parse_strftime p v = Inl ValueError \<and> map_of (rows ! i) field = Some Null))) \<and>
         (field \<noteq> ''Time'' \<and> field \<noteq> ''Last Contacted'' \<and> field \<noteq> ''Installed Date'' \<longrightarrow>
            map_of (rows ! i) field = map_of (csv_data ! i) field))"
      by (rule conjI)
  qed
  have 2: "(\<forall>row\<in>set csv_data. \<forall>field v.
       (field = ''Time'' \<or> field = ''Last Contacted'' \<or> field = ''Installed Date'') \<and>
       map_of row field = Some v \<longrightarrow>
         (\<exists>t. parse_strftime p v = Inr t) \<or> parse_strftime p v = Inl ValueError) \<longrightarrow>
      (\<exists>rows'. standardize_time_formats p csv_data = Inr rows')"
  proof
    assume "\<forall>row\<in>set csv_data. \<forall>field v.
       (field = ''Time'' \<or> field = ''Last Contacted'' \<or> field = ''Installed Date'') \<and>
       map_of row field = Some v \<longrightarrow>
         (\<exists>t. parse_strftime p v = Inr t) \<or> parse_strftime p v = Inl ValueError"
    then have "\<forall>row\<in>set csv_data. \<forall>f\<in>set time_fields. \<forall>v. map_of row f = Some v \<longrightarrow>
       (\<exists>t. parse_strftime p v = Inr t) \<or> parse_strftime p v = Inl ValueError"
      unfolding time_field_iff [symmetric] by blast
    then show "\<exists>rows'. standardize_time_formats p csv_data = Inr rows'"
      by (rule standardize_time_formats_total)
  qed
  have 3: "\<forall>row\<in>set csv_data. \<forall>field v.
      (field = ''Time'' \<or> field = ''Last Contacted'' \<or> field = ''Installed Date'') \<and>
      map_of row field = Some v \<and> (\<forall>s. v \<noteq> Str s) \<longrightarrow>
        parse_strftime p v = Inl TypeError \<and>
        (\<exists>e. standardize_time_formats p csv_data = Inl e \<and> e \<noteq> ValueError) \<and>
        (\<forall>(h :: helpers) (self :: app_state) path c.
           parser h = p \<and> csv_file self = Inr csv_data \<and> readable (db self) \<and>
           file_path self = Some path \<and> path \<noteq> [] \<and> data_category self = Some c \<and> c \<noteq> [] \<longrightarrow>
             (\<exists>e. process_data h self = (self, ProcessingError e) \<and> e \<noteq> ValueError))"
  proof (intro ballI allI impI)
    fix row field v
    assume r: "row \<in> set csv_data"
      and a: "(field = ''Time'' \<or> field = ''Last Contacted'' \<or> field = ''Installed Date'') \<and>
        map_of row field = Some v \<and> (\<forall>s. v \<noteq> Str s)"
    from a have f: "field \<in> set time_fields" unfolding time_field_iff by (rule conjunct1)
    from a have m: "map_of row field = Some v" and ns: "\<forall>s. v \<noteq> Str s" by simp_all
    from ns have t: "parse_strftime p v = Inl TypeError" by (rule parse_strftime_not_string)
    from standardize_time_formats_not_string [OF r f m ns] obtain e where
      e: "standardize_time_formats p csv_data = Inl e" and ne: "e \<noteq> ValueError" by blast
    have x: "\<exists>e. standardize_time_formats p csv_data = Inl e \<and> e \<noteq> ValueError"
      using e ne by blast
    have y: "\<forall>(h :: helpers) (self :: app_state) path c.
           parser h = p \<and> csv_file self = Inr csv_data \<and> readable (db self) \<and>
           file_path self = Some path \<and> path \<noteq> [] \<and> data_category self = Some c \<and> c \<noteq> [] \<longrightarrow>
             (\<exists>e. process_data h self = (self, ProcessingError e) \<and> e \<noteq> ValueError)"
    proof (intro allI impI)
      fix path c and h :: helpers and self :: app_state
      assume g: "parser h = p \<and> csv_file self = Inr csv_data \<and> readable (db self) \<and>
           file_path self = Some path \<and> path \<noteq> [] \<and> data_category self = Some c \<and> c \<noteq> []"
      with e have "process_data h self = (self, ProcessingError e)"
        by (intro process_data_standardize_raises [of h csv_data e self path c]) simp_all
      with ne show "\<exists>e. process_data h self = (self, ProcessingError e) \<and> e \<noteq> ValueError"
        by blast
    qed
    from t x y show "parse_strftime p v = Inl TypeError \<and>
        (\<exists>e. standardize_time_formats p csv_data = Inl e \<and> e \<noteq> ValueError) \<and>
        (\<forall>(h :: helpers) (self :: app_state) path c.
           parser h = p \<and> csv_file self = Inr csv_data \<and> readable (db self) \<and>
           file_path self = Some path \<and> path \<noteq> [] \<and> data_category self = Some c \<and> c \<noteq> [] \<longrightarrow>
             (\<exists>e. process_data h self = (self, ProcessingError e) \<and> e \<noteq> ValueError))"
      by (intro conjI)
  qed
  from 1 2 3 show ?thesis by (intro conjI)
qed

theorem standardize_time_formats_handles_ValueError_only_witness:
  "standardize_time_formats example_parser timed_rows =
     Inr [[(''Time'', Str ''2024-01-05T10:00:00''), (''Last Contacted'', Null)],
          [(''Installed Date'', Str ''2024-01-05T10:00:00''), (''Time'', Null),
           (''Text'', Str ''b'')]] \<and>
   length [[(''Time'', Str ''2024-01-05T10:00:00''), (''Last Contacted'', Null)],
           [(''Installed Date'', Str ''2024-01-05T10:00:00''), (''Time'', Null),
            (''Text'', Str ''b'')]] = length timed_rows \<and>
   map_of ([[(''Time'', Str ''2024-01-05T10:00:00''), (''Last Contacted'', Null)],
            [(''Installed Date'', Str ''2024-01-05T10:00:00''), (''Time'', Null),
             (''Text'', Str ''b'')]] ! 0) ''Last Contacted'' = Some Null \<and>
   parse_strftime example_parser (Str ''soon'') = Inl ValueError \<and>
   parse_strftime example_parser NaN = Inl TypeError \<and>
   (\<exists>e. standardize_time_formats example_parser missing_time_rows = Inl e \<and> e \<noteq> ValueError) \<and>
   (\<exists>e. process_data example_helpers (example_state missing_time_rows True) =
           (example_state missing_time_rows True, ProcessingError e) \<and> e \<noteq> ValueError)"
proof -
  have standardize_timed: "standardize_time_formats example_parser timed_rows =
     Inr [[(''Time'', Str ''2024-01-05T10:00:00''), (''Last Contacted'', Null)],
          [(''Installed Date'', Str ''2024-01-05T10:00:00''), (''Time'', Null),
           (''Text'', Str ''b'')]]"
    by (simp add: standardize_eval timed_rows_def)
  note t = standardize_time_formats_handles_ValueError_only
             [of example_parser timed_rows
                 "[[(''Time'', Str ''2024-01-05T10:00:00''), (''Last Contacted'', Null)],
                   [(''Installed Date'', Str ''2024-01-05T10:00:00''), (''Time'', Null),
                    (''Text'', Str ''b'')]]", THEN conjunct1, THEN mp, OF standardize_timed]
  from t have n: "length [[(''Time'', Str ''2024-01-05T10:00:00''), (''Last Contacted'', Null)],
           [(''Installed Date'', Str ''2024-01-05T10:00:00''), (''Time'', Null),
            (''Text'', Str ''b'')]] = length timed_rows"
    by (rule conjunct1)
  have i: "(0::nat) < length timed_rows" by (simp add: timed_rows_def)
  have f: "''Last Contacted'' = ''Time'' \<or> ''Last Contacted'' = ''Last Contacted'' \<or>
      ''Last Contacted'' = ''Installed Date''" by simp
  have m: "map_of (timed_rows ! 0) ''Last Contacted'' = Some (Str ''soon'')"
    by (simp add: timed_rows_def)
  have v: "parse_strftime example_parser (Str ''soon'') = Inl ValueError"
    by (simp add: parse_strftime_def example_parser_def)
  note c = t [THEN conjunct2, rule_format, OF i, of "''Last Contacted''", THEN conjunct1,
              rule_format, OF f, THEN conjunct2, rule_format, OF m]
  from c v have l: "map_of ([[(''Time'', Str ''2024-01-05T10:00:00''), (''Last Contacted'', Null)],
            [(''Installed Date'', Str ''2024-01-05T10:00:00''), (''Time'', Null),
             (''Text'', Str ''b'')]] ! 0) ''Last Contacted'' = Some Null"
    by simp
  have r: "[(''Name'', Str ''Dave''), (''Last Contacted'', NaN)] \<in> set missing_time_rows"
    by (simp add: missing_time_rows_def)
  have a: "(''Last Contacted'' = ''Time'' \<or> ''Last Contacted'' = ''Last Contacted'' \<or>
      ''Last Contacted'' = ''Installed Date'') \<and>
      map_of [(''Name'', Str ''Dave''), (''Last Contacted'', NaN)] ''Last Contacted'' = Some NaN \<and>
      (\<forall>s. NaN \<noteq> Str s)"
    by simp
  note k = standardize_time_formats_handles_ValueError_only
             [of example_parser missing_time_rows "[]", THEN conjunct2, THEN conjunct2,
              rule_format, OF r a]
  from k have p: "parse_strftime example_parser NaN = Inl TypeError"
    by (rule conjunct1)
  from k have s: "\<exists>e. standardize_time_formats example_parser missing_time_rows = Inl e \<and>
      e \<noteq> ValueError"
    by (rule conjunct2 [THEN conjunct1])
  from k [THEN conjunct2, THEN conjunct2, rule_format, OF example_state_guards]
  have q: "\<exists>e. process_data example_helpers (example_state missing_time_rows True) =
           (example_state missing_time_rows True, ProcessingError e) \<and> e \<noteq> ValueError" .
  from standardize_timed n l v p s q show ?thesis by (intro conjI)
qed


subsection \<open>Runs of the module as it is written\<close>







end
